theory Spec2Isabelle
  imports Main "HOL-Library.Char_ord" "HOL-Library.List_Lexorder"
begin

section \<open>The migration tool and its two databases\<close>

text \<open>
  The program \<^verbatim>\<open>supabase-migration-cli.py\<close> copies the rows of selected tables from a
  source PostgreSQL database to a destination one. Its class \<^verbatim>\<open>SupabaseMigrator\<close> talks to
  both databases through a driver; the model below makes the databases, the terminal and
  every exception explicit.
\<close>

subsection \<open>Exceptions\<close>

text \<open>
  Python separates \<^verbatim>\<open>Exception\<close> (what \<^verbatim>\<open>except Exception\<close> catches) from
  \<^verbatim>\<open>KeyboardInterrupt\<close> and \<^verbatim>\<open>SystemExit\<close>, which pass through such a handler.
  \<^verbatim>\<open>sys.exit(n)\<close> raises \<open>SystemExit n\<close>.
\<close>

datatype exn = Exception string | KeyboardInterrupt | SystemExit nat

fun is_Exception :: "exn \<Rightarrow> bool" where
  "is_Exception (Exception msg) = True"
| "is_Exception KeyboardInterrupt = False"
| "is_Exception (SystemExit n) = False"

subsection \<open>Data\<close>

text \<open>
  A value is kept as the text the driver returns; a row is the tuple of its values.
  \<open>table_row\<close> is a row of \<^verbatim>\<open>information_schema.tables\<close>, \<open>column_row\<close> one of
  \<^verbatim>\<open>information_schema.columns\<close>. A \<open>relation\<close> is what \<^verbatim>\<open>SELECT * FROM "t"\<close> yields: the
  column names of \<^verbatim>\<open>cursor.description\<close> and the rows, in the order the server sends them.
\<close>

type_synonym val = string
type_synonym row = "val list"

record table_row =
  table_schema :: string
  table_name :: string
  table_type :: string

record column_row =
  column_schema :: string
  column_table :: string
  column_name :: string
  data_type :: string
  ordinal_position :: nat

record relation =
  rel_columns :: "string list"
  rel_rows :: "row list"

record source_db =
  s_tables :: "table_row list"
  s_columns :: "column_row list"
  s_relations :: "string \<rightharpoonup> relation"

text \<open>
  The destination keeps the rows that are committed, the rows written by the open
  transaction, and a journal of every statement the program sent on the destination
  connection. A stored row remembers the table and the column list it was inserted under.
\<close>

datatype stmt = Insert string "string list" row | Commit | Rollback

type_synonym stored = "string \<times> string list \<times> row"

record dest_db =
  d_tables :: "table_row list"
  d_committed :: "stored list"
  d_pending :: "stored list"
  d_log :: "stmt list"

text \<open>
  Every call that leaves the process may raise. Which one does is the environment's
  choice: \<open>fault\<close> maps the destination's present state (its journal tells how far the
  run has come) and the call to the exception raised, or to \<open>None\<close>. \<open>conflict\<close> tells
  whether a row meets a uniqueness conflict at the destination, where
  \<^verbatim>\<open>ON CONFLICT DO NOTHING\<close> drops it silently. The source database is only read.
\<close>

datatype call =
    CConnect string
  | CTables
  | CCount string
  | CColumns string
  | CExists string
  | CSelect string
  | CInsert string "string list" row
  | CCommit
  | CInput

record env =
  src :: source_db
  fault :: "dest_db \<Rightarrow> call \<Rightarrow> exn option"
  conflict :: "dest_db \<Rightarrow> string \<Rightarrow> string list \<Rightarrow> row \<Rightarrow> bool"

subsection \<open>\<^verbatim>\<open>get_tables\<close> (lines 46-60)\<close>

text \<open>
  SQL's \<^verbatim>\<open>LIKE\<close>: in a pattern \<^verbatim>\<open>%\<close> stands for any sequence of characters and \<^verbatim>\<open>_\<close> for
  any single character; every other character stands for itself. (The two patterns of
  the program contain no escape character.) The first argument is the pattern.
\<close>

fun like :: "string \<Rightarrow> string \<Rightarrow> bool" where
  "like [] s = (s = [])"
| "like (p # ps) [] = (p = CHR ''%'' \<and> like ps [])"
| "like (p # ps) (c # cs) =
     (if p = CHR ''%'' then like ps (c # cs) \<or> like (p # ps) cs
      else if p = CHR ''_'' then like ps cs
      else p = c \<and> like ps cs)"

text \<open>
  The query of \<^verbatim>\<open>get_tables\<close>: the \<^verbatim>\<open>WHERE\<close> clause, the projection on \<^verbatim>\<open>table_name\<close> and
  \<^verbatim>\<open>ORDER BY table_name\<close> (the column has the byte-wise \<^verbatim>\<open>C\<close> collation).
\<close>

definition tables_where :: "table_row \<Rightarrow> bool" where
  "tables_where r \<longleftrightarrow>
     table_schema r = ''public''
     \<and> table_type r = ''BASE TABLE''
     \<and> \<not> like ''pg_%'' (table_name r)
     \<and> \<not> like ''_prisma%'' (table_name r)"

definition tables_query :: "table_row list \<Rightarrow> string list" where
  "tables_query cat = sort (map table_name (filter tables_where cat))"

definition get_tables :: "env \<Rightarrow> dest_db \<Rightarrow> exn + string list" where
  "get_tables e d =
     (case fault e d CTables of
        Some x \<Rightarrow> Inl x
      | None \<Rightarrow> Inr (tables_query (s_tables (src e))))"

subsection \<open>\<^verbatim>\<open>get_table_info\<close> (lines 62-85) and \<^verbatim>\<open>table_exists\<close> (lines 87-99)\<close>

text \<open>
  A query on a relation the source does not have raises. The column query filters
  \<^verbatim>\<open>information_schema.columns\<close> on the public schema and the table name and orders by
  \<^verbatim>\<open>ordinal_position\<close>.
\<close>

record table_info =
  name :: string
  row_count :: nat
  columns :: "(string \<times> string) list"

definition columns_query :: "column_row list \<Rightarrow> string \<Rightarrow> (string \<times> string) list" where
  "columns_query cs t =
     map (\<lambda>c. (column_name c, data_type c))
       (sort_key ordinal_position
         (filter (\<lambda>c. column_schema c = ''public'' \<and> column_table c = t) cs))"

definition get_table_info :: "env \<Rightarrow> string \<Rightarrow> dest_db \<Rightarrow> exn + table_info" where
  "get_table_info e t d =
     (case fault e d (CCount t) of
        Some x \<Rightarrow> Inl x
      | None \<Rightarrow>
          (case s_relations (src e) t of
             None \<Rightarrow> Inl (Exception ''UndefinedTable'')
           | Some rel \<Rightarrow>
               (case fault e d (CColumns t) of
                  Some x \<Rightarrow> Inl x
                | None \<Rightarrow>
                    Inr \<lparr>name = t, row_count = length (rel_rows rel),
                         columns = columns_query (s_columns (src e)) t\<rparr>)))"

definition exists_query :: "table_row list \<Rightarrow> string \<Rightarrow> bool" where
  "exists_query cat t = list_ex (\<lambda>r. table_schema r = ''public'' \<and> table_name r = t) cat"

definition table_exists :: "env \<Rightarrow> string \<Rightarrow> dest_db \<Rightarrow> exn + bool" where
  "table_exists e t d =
     (case fault e d (CExists t) of
        Some x \<Rightarrow> Inl x
      | None \<Rightarrow> Inr (exists_query (d_tables d) t))"

subsection \<open>Statements on the destination connection\<close>

text \<open>
  \<^verbatim>\<open>executemany\<close> runs the \<^verbatim>\<open>INSERT ... ON CONFLICT DO NOTHING\<close> statement once for each
  row of the batch, in order, inside the open transaction, and stops at the first row
  that raises. A statement that raises was still sent, so it is in the journal.
  \<^verbatim>\<open>commit\<close> makes the rows of the open transaction durable, \<^verbatim>\<open>rollback\<close> discards them.
  Each function returns the exception raised, if any, with the new state.
\<close>

definition exec_insert ::
  "env \<Rightarrow> string \<Rightarrow> string list \<Rightarrow> row \<Rightarrow> dest_db \<Rightarrow> exn option \<times> dest_db" where
  "exec_insert e t cols r d =
     (let d1 = d\<lparr>d_log := d_log d @ [Insert t cols r]\<rparr> in
      case fault e d (CInsert t cols r) of
        Some x \<Rightarrow> (Some x, d1)
      | None \<Rightarrow>
          (None, if conflict e d t cols r then d1
                 else d1\<lparr>d_pending := d_pending d @ [(t, cols, r)]\<rparr>))"

fun executemany ::
  "env \<Rightarrow> string \<Rightarrow> string list \<Rightarrow> row list \<Rightarrow> dest_db \<Rightarrow> exn option \<times> dest_db" where
  "executemany e t cols [] d = (None, d)"
| "executemany e t cols (r # rs) d =
     (case exec_insert e t cols r d of
        (Some x, d1) \<Rightarrow> (Some x, d1)
      | (None, d1) \<Rightarrow> executemany e t cols rs d1)"

definition commit :: "env \<Rightarrow> dest_db \<Rightarrow> exn option \<times> dest_db" where
  "commit e d =
     (case fault e d CCommit of
        Some x \<Rightarrow> (Some x, d\<lparr>d_log := d_log d @ [Commit]\<rparr>)
      | None \<Rightarrow>
          (None, d\<lparr>d_committed := d_committed d @ d_pending d, d_pending := [],
                   d_log := d_log d @ [Commit]\<rparr>))"

definition rollback :: "dest_db \<Rightarrow> dest_db" where
  "rollback d = d\<lparr>d_pending := [], d_log := d_log d @ [Rollback]\<rparr>"

subsection \<open>The terminal\<close>

text \<open>
  What the program prints is kept as a list of events, one for each \<^verbatim>\<open>print\<close> that
  carries information (separator lines, prompts and the measured duration are left
  out). \<^verbatim>\<open>input()\<close> takes the next line of the standard input.
\<close>

datatype event =
    Connecting string
  | Connected string
  | ConnectFailed string exn
  | Found nat "string list"
  | TablesNotFound "string list"
  | NoTablesSelected
  | TableInfo string nat nat
  | Ready nat
  | Cancelled
  | Migrating string string
  | Progress nat
  | ErrorInserting exn
  | Completed nat
  | Skipping string
  | Failed string exn
  | Summary nat nat
  | Interrupted
  | MigrationFailed exn

record world =
  dst :: dest_db
  stdin :: "string list"
  out :: "event list"

definition print :: "event \<Rightarrow> world \<Rightarrow> world" where
  "print ev w = w\<lparr>out := out w @ [ev]\<rparr>"

definition input :: "env \<Rightarrow> world \<Rightarrow> (exn + string) \<times> world" where
  "input e w =
     (case fault e (dst w) CInput of
        Some x \<Rightarrow> (Inl x, w)
      | None \<Rightarrow>
          (case stdin w of
             [] \<Rightarrow> (Inl (Exception ''EOFError''), w)
           | l # ls \<Rightarrow> (Inr l, w\<lparr>stdin := ls\<rparr>)))"

text \<open>\<^verbatim>\<open>str.strip()\<close>, \<^verbatim>\<open>str.lower()\<close> and \<^verbatim>\<open>str.split(',')\<close>, on ASCII text.\<close>

definition is_space :: "char \<Rightarrow> bool" where
  "is_space c \<longleftrightarrow>
     c \<in> set [CHR '' '', CHR 0x09, CHR 0x0A, CHR 0x0B, CHR 0x0C, CHR 0x0D,
              CHR 0x1C, CHR 0x1D, CHR 0x1E, CHR 0x1F]"

definition strip :: "string \<Rightarrow> string" where
  "strip s = rev (dropWhile is_space (rev (dropWhile is_space s)))"

definition lower_char :: "char \<Rightarrow> char" where
  "lower_char c =
     (case map_of (zip ''ABCDEFGHIJKLMNOPQRSTUVWXYZ'' ''abcdefghijklmnopqrstuvwxyz'') c of
        Some l \<Rightarrow> l
      | None \<Rightarrow> c)"

definition lower :: "string \<Rightarrow> string" where
  "lower s = map lower_char s"

fun split_comma :: "string \<Rightarrow> string list" where
  "split_comma [] = [[]]"
| "split_comma (c # cs) =
     (if c = CHR '','' then [] # split_comma cs
      else (case split_comma cs of
              [] \<Rightarrow> [[c]]
            | p # ps \<Rightarrow> (c # p) # ps))"

subsection \<open>\<^verbatim>\<open>migrate_table\<close> (lines 101-143)\<close>

text \<open>
  The \<^verbatim>\<open>while True\<close> loop of lines 117-138. \<open>todo\<close> holds the rows the source cursor has
  not handed out yet: \<^verbatim>\<open>fetchmany(batch_size)\<close> takes the next \<open>batch_size\<close> of them, and
  an empty batch ends the loop. An \<^verbatim>\<open>Exception\<close> from \<^verbatim>\<open>executemany\<close> or \<^verbatim>\<open>commit\<close> is
  caught at line 135: rollback, a message, and the exception is raised again. Any other
  exception leaves the loop at once.
\<close>

function copy_batches ::
  "env \<Rightarrow> string \<Rightarrow> string list \<Rightarrow> nat \<Rightarrow> row list \<Rightarrow> nat \<Rightarrow> world
     \<Rightarrow> (exn + nat) \<times> world" where
  "copy_batches e dest_table cols batch_size todo rows_migrated w =
     (let rows = take batch_size todo in
      if rows = [] then (Inr rows_migrated, w)
      else
        (case executemany e dest_table cols rows (dst w) of
           (Some x, d1) \<Rightarrow>
             if is_Exception x
             then (Inl x, print (ErrorInserting x) (w\<lparr>dst := rollback d1\<rparr>))
             else (Inl x, w\<lparr>dst := d1\<rparr>)
         | (None, d1) \<Rightarrow>
             (case commit e d1 of
                (Some x, d2) \<Rightarrow>
                  if is_Exception x
                  then (Inl x, print (ErrorInserting x) (w\<lparr>dst := rollback d2\<rparr>))
                  else (Inl x, w\<lparr>dst := d2\<rparr>)
              | (None, d2) \<Rightarrow>
                  copy_batches e dest_table cols batch_size (drop batch_size todo)
                    (rows_migrated + length rows)
                    (print (Progress (rows_migrated + length rows)) (w\<lparr>dst := d2\<rparr>)))))"
  by pat_completeness auto
termination
  by (relation "measure (\<lambda>(e, dest_table, cols, batch_size, todo, rows_migrated, w). length todo)")
    auto

definition select_all :: "env \<Rightarrow> string \<Rightarrow> dest_db \<Rightarrow> exn + relation" where
  "select_all e t d =
     (case fault e d (CSelect t) of
        Some x \<Rightarrow> Inl x
      | None \<Rightarrow>
          (case s_relations (src e) t of
             None \<Rightarrow> Inl (Exception ''UndefinedTable'')
           | Some rel \<Rightarrow> Inr rel))"

definition migrate_table ::
  "env \<Rightarrow> string \<Rightarrow> string \<Rightarrow> nat \<Rightarrow> world \<Rightarrow> (exn + nat) \<times> world" where
  "migrate_table e source_table dest_table batch_size w =
     (let w1 = print (Migrating source_table dest_table) w in
      case select_all e source_table (dst w1) of
        Inl x \<Rightarrow> (Inl x, w1)
      | Inr rel \<Rightarrow>
          (case copy_batches e dest_table (rel_columns rel) batch_size (rel_rows rel) 0 w1 of
             (Inl x, w2) \<Rightarrow> (Inl x, w2)
           | (Inr rows_migrated, w2) \<Rightarrow>
               (Inr rows_migrated, print (Completed rows_migrated) w2)))"

subsection \<open>\<^verbatim>\<open>migrate\<close> (lines 145-224)\<close>

text \<open>
  \<^verbatim>\<open>table_mappings\<close> is an optional dict, given here by its items (the keys of a dict are
  unique, so the order of the items does not matter). Line 202:
  \<^verbatim>\<open>table_mappings.get(source_table, source_table) if table_mappings else source_table\<close>;
  \<^verbatim>\<open>None\<close> and the empty dict are both false.
\<close>

definition dest_name :: "(string \<times> string) list option \<Rightarrow> string \<Rightarrow> string" where
  "dest_name table_mappings source_table =
     (case table_mappings of
        None \<Rightarrow> source_table
      | Some m \<Rightarrow>
          if m = [] then source_table
          else (case map_of m source_table of
                  Some d \<Rightarrow> d
                | None \<Rightarrow> source_table))"

text \<open>
  Lines 153-177, the choice of the tables. Without a list the user is asked, and the
  answer is not checked against the source; a given list is checked, and a name the
  source does not list ends the program with \<^verbatim>\<open>sys.exit(1)\<close>. Line 175 refuses an empty
  selection in both cases.
\<close>

definition require_selection :: "string list \<Rightarrow> world \<Rightarrow> (exn + string list) \<times> world" where
  "require_selection selected_tables w =
     (if selected_tables = [] then (Inl (SystemExit 1), print NoTablesSelected w)
      else (Inr selected_tables, w))"

definition select_tables ::
  "env \<Rightarrow> string list option \<Rightarrow> world \<Rightarrow> (exn + string list) \<times> world" where
  "select_tables e selected_tables w =
     (case selected_tables of
        None \<Rightarrow>
          (case get_tables e (dst w) of
             Inl x \<Rightarrow> (Inl x, w)
           | Inr all_tables \<Rightarrow>
               (case input e (print (Found (length all_tables) all_tables) w) of
                  (Inl x, w1) \<Rightarrow> (Inl x, w1)
                | (Inr line, w1) \<Rightarrow>
                    (let user_input = strip line in
                     require_selection
                       (if lower user_input = ''all'' then all_tables
                        else filter (\<lambda>t. t \<noteq> []) (map strip (split_comma user_input)))
                       w1)))
      | Some sel \<Rightarrow>
          (case get_tables e (dst w) of
             Inl x \<Rightarrow> (Inl x, w)
           | Inr all_tables \<Rightarrow>
               (let invalid_tables = filter (\<lambda>t. t \<notin> set all_tables) sel in
                if invalid_tables \<noteq> []
                then (Inl (SystemExit 1), print (TablesNotFound invalid_tables) w)
                else require_selection sel w)))"

text \<open>Lines 179-187: one \<^verbatim>\<open>get_table_info\<close> for each selected table, outside any handler.\<close>

fun show_table_info :: "env \<Rightarrow> string list \<Rightarrow> world \<Rightarrow> exn option \<times> world" where
  "show_table_info e [] w = (None, w)"
| "show_table_info e (t # ts) w =
     (case get_table_info e t (dst w) of
        Inl x \<Rightarrow> (Some x, w)
      | Inr info \<Rightarrow>
          show_table_info e ts
            (print (TableInfo (name info) (row_count info) (length (columns info))) w))"

text \<open>Lines 189-194: the run goes on only after the answer \<^verbatim>\<open>yes\<close> or \<^verbatim>\<open>y\<close>.\<close>

definition confirm :: "env \<Rightarrow> world \<Rightarrow> (exn + bool) \<times> world" where
  "confirm e w =
     (case input e w of
        (Inl x, w1) \<Rightarrow> (Inl x, w1)
      | (Inr line, w1) \<Rightarrow> (Inr (lower (strip line) \<in> set [''yes'', ''y'']), w1))"

text \<open>
  Lines 200-214, the loop over the selected tables, with \<open>total_rows\<close> as accumulator.
  \<^verbatim>\<open>table_exists\<close> is called only when \<^verbatim>\<open>skip_existing\<close> holds, and outside the
  \<^verbatim>\<open>try\<close>; the handler of line 212 catches an \<^verbatim>\<open>Exception\<close> of \<^verbatim>\<open>migrate_table\<close> only.
\<close>

fun copy_tables ::
  "env \<Rightarrow> (string \<times> string) list option \<Rightarrow> bool \<Rightarrow> nat \<Rightarrow> string list \<Rightarrow> nat \<Rightarrow> world
     \<Rightarrow> (exn + nat) \<times> world" where
  "copy_tables e table_mappings skip_existing batch_size [] total_rows w = (Inr total_rows, w)"
| "copy_tables e table_mappings skip_existing batch_size (source_table # rest) total_rows w =
     (let dest_table = dest_name table_mappings source_table in
      case (if skip_existing then table_exists e dest_table (dst w) else Inr False) of
        Inl x \<Rightarrow> (Inl x, w)
      | Inr True \<Rightarrow>
          copy_tables e table_mappings skip_existing batch_size rest total_rows
            (print (Skipping source_table) w)
      | Inr False \<Rightarrow>
          (case migrate_table e source_table dest_table batch_size w of
             (Inr rows, w1) \<Rightarrow>
               copy_tables e table_mappings skip_existing batch_size rest (total_rows + rows) w1
           | (Inl x, w1) \<Rightarrow>
               if is_Exception x
               then copy_tables e table_mappings skip_existing batch_size rest total_rows
                      (print (Failed source_table x) w1)
               else (Inl x, w1)))"

text \<open>Lines 179-224: what \<^verbatim>\<open>migrate\<close> does once the tables are chosen.\<close>

definition run_plan ::
  "env \<Rightarrow> (string \<times> string) list option \<Rightarrow> bool \<Rightarrow> nat \<Rightarrow> string list \<Rightarrow> world
     \<Rightarrow> (exn + unit) \<times> world" where
  "run_plan e table_mappings skip_existing batch_size selected_tables w =
     (case show_table_info e selected_tables w of
        (Some x, w1) \<Rightarrow> (Inl x, w1)
      | (None, w1) \<Rightarrow>
          (case confirm e (print (Ready (length selected_tables)) w1) of
             (Inl x, w2) \<Rightarrow> (Inl x, w2)
           | (Inr False, w2) \<Rightarrow> (Inr (), print Cancelled w2)
           | (Inr True, w2) \<Rightarrow>
               (case copy_tables e table_mappings skip_existing batch_size selected_tables 0 w2 of
                  (Inl x, w3) \<Rightarrow> (Inl x, w3)
                | (Inr total_rows, w3) \<Rightarrow>
                    (Inr (), print (Summary (length selected_tables) total_rows) w3))))"

definition migrate ::
  "env \<Rightarrow> string list option \<Rightarrow> (string \<times> string) list option \<Rightarrow> bool \<Rightarrow> nat \<Rightarrow> world
     \<Rightarrow> (exn + unit) \<times> world" where
  "migrate e selected_tables table_mappings skip_existing batch_size w =
     (case select_tables e selected_tables w of
        (Inl x, w1) \<Rightarrow> (Inl x, w1)
      | (Inr plan, w1) \<Rightarrow> run_plan e table_mappings skip_existing batch_size plan w1)"

subsection \<open>Connections: \<^verbatim>\<open>connect\<close>, \<^verbatim>\<open>close\<close> (lines 15-44) and \<^verbatim>\<open>main\<close> (lines 311-329)\<close>

text \<open>
  A connection field is \<^verbatim>\<open>None\<close> (\<open>Unset\<close>), or holds a connection that is open or has
  been closed. \<^verbatim>\<open>connect\<close> turns an \<^verbatim>\<open>Exception\<close> of the driver into \<^verbatim>\<open>sys.exit(1)\<close>.
\<close>

datatype conn = Unset | Open | Closed

record migrator =
  source_conn_string :: string
  dest_conn_string :: string
  source_conn :: conn
  dest_conn :: conn

definition init :: "string \<Rightarrow> string \<Rightarrow> migrator" where
  "init s d =
     \<lparr>source_conn_string = s, dest_conn_string = d, source_conn = Unset, dest_conn = Unset\<rparr>"

definition connect :: "env \<Rightarrow> migrator \<Rightarrow> world \<Rightarrow> (exn + unit) \<times> migrator \<times> world" where
  "connect e m w =
     (let w1 = print (Connecting ''source'') w in
      case fault e (dst w1) (CConnect (source_conn_string m)) of
        Some x \<Rightarrow>
          if is_Exception x
          then (Inl (SystemExit 1), m, print (ConnectFailed ''source'' x) w1)
          else (Inl x, m, w1)
      | None \<Rightarrow>
          (let m1 = m\<lparr>source_conn := Open\<rparr>;
               w2 = print (Connecting ''destination'') (print (Connected ''source'') w1)
           in case fault e (dst w2) (CConnect (dest_conn_string m1)) of
                Some x \<Rightarrow>
                  if is_Exception x
                  then (Inl (SystemExit 1), m1, print (ConnectFailed ''destination'' x) w2)
                  else (Inl x, m1, w2)
              | None \<Rightarrow>
                  (Inr (), m1\<lparr>dest_conn := Open\<rparr>, print (Connected ''destination'') w2)))"

definition close :: "migrator \<Rightarrow> migrator" where
  "close m =
     (let m1 = (if source_conn m \<noteq> Unset then m\<lparr>source_conn := Closed\<rparr> else m)
      in if dest_conn m1 \<noteq> Unset then m1\<lparr>dest_conn := Closed\<rparr> else m1)"

text \<open>
  \<^verbatim>\<open>main\<close> from the creation of the migrator on, its arguments being what the command
  line and the prompts have produced: \<^verbatim>\<open>try\<close> (connect, migrate), the two handlers,
  each ending in \<^verbatim>\<open>sys.exit(1)\<close>, and \<^verbatim>\<open>finally: migrator.close()\<close>.
\<close>

definition main_try ::
  "env \<Rightarrow> migrator \<Rightarrow> string list option \<Rightarrow> (string \<times> string) list \<Rightarrow> bool \<Rightarrow> nat \<Rightarrow> world
     \<Rightarrow> (exn + unit) \<times> migrator \<times> world" where
  "main_try e m selected_tables table_mappings skip_existing batch_size w =
     (case connect e m w of
        (Inl x, m1, w1) \<Rightarrow> (Inl x, m1, w1)
      | (Inr u, m1, w1) \<Rightarrow>
          (case migrate e selected_tables (Some table_mappings) skip_existing batch_size w1 of
             (r, w2) \<Rightarrow> (r, m1, w2)))"

definition main ::
  "env \<Rightarrow> string \<Rightarrow> string \<Rightarrow> string list option \<Rightarrow> (string \<times> string) list \<Rightarrow> bool \<Rightarrow> nat
     \<Rightarrow> world \<Rightarrow> (exn + unit) \<times> migrator \<times> world" where
  "main e source dest selected_tables table_mappings skip_existing batch_size w =
     (case main_try e (init source dest) selected_tables table_mappings skip_existing
             batch_size w of
        (Inl KeyboardInterrupt, m1, w1) \<Rightarrow> (Inl (SystemExit 1), close m1, print Interrupted w1)
      | (Inl (Exception msg), m1, w1) \<Rightarrow>
          (Inl (SystemExit 1), close m1, print (MigrationFailed (Exception msg)) w1)
      | (Inl (SystemExit n), m1, w1) \<Rightarrow> (Inl (SystemExit n), close m1, w1)
      | (Inr u, m1, w1) \<Rightarrow> (Inr u, close m1, w1))"

text \<open>What the specification says of \<^verbatim>\<open>listTables\<close>: a prefix test against two fixed strings.\<close>

definition startswith :: "string \<Rightarrow> string \<Rightarrow> bool" where
  "startswith s p \<longleftrightarrow> take (length p) s = p"

definition spec_listed :: "table_row \<Rightarrow> bool" where
  "spec_listed r \<longleftrightarrow>
     table_schema r = ''public''
     \<and> table_type r = ''BASE TABLE''
     \<and> \<not> startswith (table_name r) ''pg_''
     \<and> \<not> startswith (table_name r) ''_prisma''"

text \<open>An environment in which no call raises and no row conflicts, over a given source.\<close>

definition quiet :: "source_db \<Rightarrow> env" where
  "quiet s = \<lparr>src = s, fault = (\<lambda>d c. None), conflict = (\<lambda>d t cols r. False)\<rparr>"

definition empty_dest :: "table_row list \<Rightarrow> dest_db" where
  "empty_dest cat = \<lparr>d_tables = cat, d_committed = [], d_pending = [], d_log = []\<rparr>"

definition public_table :: "string \<Rightarrow> table_row" where
  "public_table n = \<lparr>table_schema = ''public'', table_name = n, table_type = ''BASE TABLE''\<rparr>"

subsection \<open>Batches, as the specification describes them\<close>

text \<open>
  The rows of a table cut into consecutive groups of \<open>b\<close> rows, the last group holding
  what is left. This is the specification's reading of "batch"; the program's own loop
  is \<open>copy_batches\<close>.
\<close>

function batches :: "nat \<Rightarrow> 'a list \<Rightarrow> 'a list list" where
  "batches b xs = (if b = 0 \<or> xs = [] then [] else take b xs # batches b (drop b xs))"
  by pat_completeness auto
termination
  by (relation "measure (\<lambda>(b, xs). length xs)") auto

subsection \<open>Reading the output and the journal of a run\<close>

text \<open>
  The program keeps no list of results: what happened to a table is known from what it
  printed. \<open>outcomes\<close> reads the printed events in order; \<open>cur\<close> is the table whose copy
  is under way, named by the message of line 103. A table ends as copied with its
  number of rows (line 142), as skipped (line 206) or as failed (line 213). No other
  event says anything about a table's end (\<open>silent\<close>).
\<close>

datatype outcome = Succeeded nat | Skipped | Failure exn

fun outcomes :: "string option \<Rightarrow> event list \<Rightarrow> (string \<times> outcome) list" where
  "outcomes cur [] = []"
| "outcomes cur (Migrating s d # evs) = outcomes (Some s) evs"
| "outcomes cur (Skipping s # evs) = (s, Skipped) # outcomes None evs"
| "outcomes (Some s) (Completed n # evs) = (s, Succeeded n) # outcomes None evs"
| "outcomes cur (Failed s x # evs) = (s, Failure x) # outcomes None evs"
| "outcomes cur (ev # evs) = outcomes cur evs"

fun rows_of :: "string \<times> outcome \<Rightarrow> nat" where
  "rows_of (s, Succeeded n) = n"
| "rows_of (s, Skipped) = 0"
| "rows_of (s, Failure x) = 0"

fun silent :: "event \<Rightarrow> bool" where
  "silent (Migrating s d) = False"
| "silent (Skipping s) = False"
| "silent (Completed n) = False"
| "silent (Failed s x) = False"
| "silent ev = True"

text \<open>
  The statements a copy into table \<open>t\<close> with column list \<open>cols\<close> may send for the rows
  \<open>rows\<close>, and those a whole run may send for a plan: only the tables that are not
  skipped are written, each under its destination name, with the column list and the
  rows of the source relation.
\<close>

definition issued :: "string \<Rightarrow> string list \<Rightarrow> row list \<Rightarrow> stmt set" where
  "issued t cols rows = insert Commit (insert Rollback (Insert t cols ` set rows))"

definition plan_stmts ::
  "env \<Rightarrow> (string \<times> string) list option \<Rightarrow> bool \<Rightarrow> table_row list \<Rightarrow> string list \<Rightarrow> stmt set" where
  "plan_stmts e tm skip cat plan =
     insert Commit (insert Rollback
       {Insert (dest_name tm s) (rel_columns rel) row | s rel row.
          s \<in> set plan \<and> (skip \<longrightarrow> \<not> exists_query cat (dest_name tm s))
          \<and> s_relations (src e) s = Some rel \<and> row \<in> set (rel_rows rel)})"


text \<open>
  The statements that a complete copy of the source table \<open>s\<close> sends, batch after batch,
  into its destination name, and the rows the source holds for \<open>s\<close>.
\<close>

definition table_stmts ::
  "env \<Rightarrow> (string \<times> string) list option \<Rightarrow> nat \<Rightarrow> string \<Rightarrow> stmt list" where
  "table_stmts e tm b s =
     (case s_relations (src e) s of
        None \<Rightarrow> []
      | Some rel \<Rightarrow>
          concat (map (\<lambda>batch. map (Insert (dest_name tm s) (rel_columns rel)) batch @ [Commit])
                   (batches b (rel_rows rel))))"

definition source_rows :: "env \<Rightarrow> string \<Rightarrow> row list" where
  "source_rows e s = (case s_relations (src e) s of None \<Rightarrow> [] | Some rel \<Rightarrow> rel_rows rel)"

subsection \<open>Sample data\<close>

text \<open>
  A source with seven public tables, and a destination that has a table for each of
  them under the same name, but \<^verbatim>\<open>users_v2\<close> for \<^verbatim>\<open>old_users\<close>. The terminal answers the
  question of line 191 with \<^verbatim>\<open>yes\<close> in \<open>w_yes\<close> and with \<^verbatim>\<open>no\<close> in \<open>w_no\<close>; \<open>w0\<close> has no
  input.
\<close>

definition public_column :: "string \<Rightarrow> string \<Rightarrow> string \<Rightarrow> nat \<Rightarrow> column_row" where
  "public_column t c ty pos =
     \<lparr>column_schema = ''public'', column_table = t, column_name = c, data_type = ty,
      ordinal_position = pos\<rparr>"

definition single :: "val \<Rightarrow> relation" where
  "single v = \<lparr>rel_columns = [''id''], rel_rows = [[v]]\<rparr>"

definition items :: relation where
  "items = \<lparr>rel_columns = [''id'', ''v''],
            rel_rows = [[''1'', ''a''], [''2'', ''b''], [''3'', ''c''], [''4'', ''d''], [''5'', ''e'']]\<rparr>"

definition no_rows :: relation where
  "no_rows = \<lparr>rel_columns = [''id''], rel_rows = []\<rparr>"

definition old_users :: relation where
  "old_users = \<lparr>rel_columns = [''id'', ''email''],
                rel_rows = [[''7'', ''ann@example.org''], [''8'', ''bob@example.org'']]\<rparr>"

definition shop :: source_db where
  "shop =
     \<lparr>s_tables = map public_table
         [''a'', ''b'', ''c'', ''items'', ''no_rows'', ''old_users'', ''orders''],
      s_columns =
        [public_column ''a'' ''id'' ''integer'' 1, public_column ''b'' ''id'' ''integer'' 1,
         public_column ''c'' ''id'' ''integer'' 1, public_column ''items'' ''id'' ''integer'' 1,
         public_column ''items'' ''v'' ''text'' 2, public_column ''no_rows'' ''id'' ''integer'' 1,
         public_column ''old_users'' ''id'' ''integer'' 1,
         public_column ''old_users'' ''email'' ''text'' 2,
         public_column ''orders'' ''id'' ''integer'' 1],
      s_relations =
        [''a'' \<mapsto> single ''1'', ''b'' \<mapsto> single ''2'', ''c'' \<mapsto> single ''3'',
         ''items'' \<mapsto> items, ''no_rows'' \<mapsto> no_rows, ''old_users'' \<mapsto> old_users,
         ''orders'' \<mapsto> single ''9'']\<rparr>"

definition dest0 :: dest_db where
  "dest0 = empty_dest (map public_table
     [''a'', ''b'', ''c'', ''items'', ''no_rows'', ''orders'', ''users_v2''])"

definition w0 :: world where
  "w0 = \<lparr>dst = dest0, stdin = [], out = []\<rparr>"

definition w_yes :: world where
  "w_yes = \<lparr>dst = dest0, stdin = [''yes''], out = []\<rparr>"

definition w_no :: world where
  "w_no = \<lparr>dst = dest0, stdin = [''no''], out = []\<rparr>"

text \<open>
  Environments over this source: in \<open>dup3\<close> the row \<open>3\<close> of \<^verbatim>\<open>items\<close> meets a uniqueness
  conflict; in \<open>reject5\<close> the destination rejects the row \<open>5\<close> of \<^verbatim>\<open>items\<close>, in \<open>reject_b\<close>
  the row of \<^verbatim>\<open>b\<close>; in \<open>deny_count_b\<close> the source refuses to count the rows of \<^verbatim>\<open>b\<close>; in
  \<open>no_dest\<close> the destination cannot be reached.
\<close>

definition dup3 :: env where
  "dup3 = \<lparr>src = shop, fault = (\<lambda>d c. None),
           conflict = (\<lambda>d t cols r. r = [''3'', ''c''])\<rparr>"

definition reject5 :: env where
  "reject5 = \<lparr>src = shop,
     fault = (\<lambda>d c. if c = CInsert ''items'' [''id'', ''v''] [''5'', ''e'']
                     then Some (Exception ''rejected'') else None),
     conflict = (\<lambda>d t cols r. False)\<rparr>"

definition reject_b :: env where
  "reject_b = \<lparr>src = shop,
     fault = (\<lambda>d c. if c = CInsert ''b'' [''id''] [''2'']
                     then Some (Exception ''rejected'') else None),
     conflict = (\<lambda>d t cols r. False)\<rparr>"

definition deny_count_b :: env where
  "deny_count_b = \<lparr>src = shop,
     fault = (\<lambda>d c. if c = CCount ''b'' then Some (Exception ''permission denied'') else None),
     conflict = (\<lambda>d t cols r. False)\<rparr>"

definition no_dest :: env where
  "no_dest = \<lparr>src = shop,
     fault = (\<lambda>d c. if c = CConnect ''postgresql://dest''
                     then Some (Exception ''connection refused'') else None),
     conflict = (\<lambda>d t cols r. False)\<rparr>"


definition w_orders :: world where
  "w_orders = \<lparr>dst = empty_dest [public_table ''orders''], stdin = [], out = []\<rparr>"

text \<open>
  A source whose public base tables are \<^verbatim>\<open>users\<close>, \<^verbatim>\<open>pgbench_accounts\<close> (the table of
  PostgreSQL's benchmark tool) and \<^verbatim>\<open>xprisma\<close>.
\<close>

definition pg_source :: source_db where
  "pg_source =
     \<lparr>s_tables = [public_table ''users'', public_table ''pgbench_accounts'',
                  public_table ''xprisma''],
      s_columns = [], s_relations = Map.empty\<rparr>"

section \<open>Properties\<close>

subsection \<open>Table discovery\<close>

lemma like_percent: "like ''%'' s"
  by (induction s) auto

lemma like_pg: "like ''pg_%'' s \<longleftrightarrow> (\<exists>c t. s = CHR ''p'' # CHR ''g'' # c # t)"
proof (cases s)
  case Nil
  then show ?thesis by simp
next
  case (Cons a s1)
  show ?thesis
  proof (cases s1)
    case Nil
    with Cons show ?thesis by auto
  next
    case (Cons b s2)
    show ?thesis
    proof (cases s2)
      case Nil
      with \<open>s = a # s1\<close> \<open>s1 = b # s2\<close> show ?thesis by auto
    next
      case (Cons c s3)
      with \<open>s = a # s1\<close> \<open>s1 = b # s2\<close> like_percent [of "c # s3"] like_percent [of s3]
      show ?thesis by auto
    qed
  qed
qed

lemma sorted_tables_query: "sorted (tables_query cat)"
  by (simp add: tables_query_def)

lemma set_tables_query:
  "set (tables_query cat) = table_name ` {r \<in> set cat. tables_where r}"
  by (simp add: tables_query_def)

text \<open>
  C8. \<^verbatim>\<open>get_tables\<close> is to return the public base tables whose names do not start with
  \<^verbatim>\<open>pg_\<close> or \<^verbatim>\<open>_prisma\<close>. The patterns \<^verbatim>\<open>'pg_%'\<close> and \<^verbatim>\<open>'_prisma%'\<close> leave the underscore
  unescaped, and \<^verbatim>\<open>LIKE\<close> reads it as "any one character": the public base tables
  \<^verbatim>\<open>pgbench_accounts\<close> and \<^verbatim>\<open>xprisma\<close> start with neither prefix, so the specification
  lists them, yet the query drops both and returns only \<^verbatim>\<open>users\<close>.
\<close>

theorem get_tables_underscore_wildcard:
  "get_tables (quiet pg_source) (empty_dest []) = Inr [''users'']
   \<and> spec_listed (public_table ''pgbench_accounts'')
   \<and> spec_listed (public_table ''xprisma'')"
  by (simp add: get_tables_def quiet_def pg_source_def tables_query_def tables_where_def
      spec_listed_def startswith_def public_table_def)

subsection \<open>The copy of one table\<close>

declare batches.simps [simp del]

lemma batches_Nil: "batches b [] = []"
  by (subst batches.simps) simp

lemma batches_unfold:
  "0 < b \<Longrightarrow> xs \<noteq> [] \<Longrightarrow> batches b xs = take b xs # batches b (drop b xs)"
  by (subst batches.simps) simp

lemma drop_shorter: "0 < b \<Longrightarrow> xs \<noteq> [] \<Longrightarrow> length (drop b xs) < length xs"
  by (cases xs) auto

lemma concat_batches: "0 < b \<Longrightarrow> concat (batches b xs) = xs"
proof (induction xs rule: length_induct)
  case (1 xs)
  show ?case
  proof (cases "xs = []")
    case True
    then show ?thesis by (simp add: batches_Nil)
  next
    case False
    with 1(2) have "length (drop b xs) < length xs" by (rule_tac drop_shorter)
    with 1 have "concat (batches b (drop b xs)) = drop b xs" by blast
    with False 1(2) show ?thesis by (simp add: batches_unfold)
  qed
qed

lemma div_one_batch: "0 < b \<Longrightarrow> 0 < n \<Longrightarrow> n \<le> b \<Longrightarrow> (n + b - 1) div b = (1::nat)"
  by (rule div_nat_eqI) simp_all

lemma div_more_batches: "0 < b \<Longrightarrow> b < n \<Longrightarrow> (n + b - 1) div b = Suc ((n - b + b - 1) div b)"
proof -
  assume b: "0 < b" and n: "b < n"
  define m where "m = n - b + b - 1"
  from b n have "n + b - 1 = m + b" by (simp add: m_def)
  moreover have "(m + b) div b = Suc (m div b)" using b by (simp add: div_add_self2)
  ultimately show ?thesis by (simp add: m_def)
qed

lemma length_batches: "0 < b \<Longrightarrow> length (batches b xs) = (length xs + b - 1) div b"
proof (induction xs rule: length_induct)
  case (1 xs)
  show ?case
  proof (cases "xs = []")
    case True
    with 1(2) show ?thesis by (simp add: batches_Nil)
  next
    case False
    with 1(2) have sh: "length (drop b xs) < length xs" by (rule_tac drop_shorter)
    with 1 have ih: "length (batches b (drop b xs)) = (length (drop b xs) + b - 1) div b" by blast
    have unf: "batches b xs = take b xs # batches b (drop b xs)"
      using False 1(2) by (simp add: batches_unfold)
    show ?thesis
    proof (cases "length xs \<le> b")
      case True
      from False have "0 < length xs" by simp
      from div_one_batch [OF 1(2) this True] True ih unf 1(2) show ?thesis by simp
    next
      case False
      then have "b < length xs" by simp
      from div_more_batches [OF 1(2) this] ih unf show ?thesis by simp
    qed
  qed
qed

lemma batches_sizes:
  "0 < b \<Longrightarrow> ys \<in> set (batches b xs) \<Longrightarrow> 0 < length ys \<and> length ys \<le> b"
proof (induction xs rule: length_induct)
  case (1 xs)
  show ?case
  proof (cases "xs = []")
    case True
    with 1(3) show ?thesis by (simp add: batches_Nil)
  next
    case False
    with 1(2) have sh: "length (drop b xs) < length xs" by (rule_tac drop_shorter)
    have unf: "batches b xs = take b xs # batches b (drop b xs)"
      using False 1(2) by (simp add: batches_unfold)
    from 1(3) unf consider "ys = take b xs" | "ys \<in> set (batches b (drop b xs))" by auto
    then show ?thesis
    proof cases
      case 1
      with False \<open>0 < b\<close> show ?thesis by (cases xs) auto
    next
      case 2
      with 1(1) sh \<open>0 < b\<close> show ?thesis by blast
    qed
  qed
qed

lemma batches_full:
  "0 < b \<Longrightarrow> Suc i < length (batches b xs) \<Longrightarrow> length (batches b xs ! i) = b"
proof (induction xs arbitrary: i rule: length_induct)
  case (1 xs)
  show ?case
  proof (cases "xs = []")
    case True
    with 1(3) show ?thesis by (simp add: batches_Nil)
  next
    case False
    with 1(2) have sh: "length (drop b xs) < length xs" by (rule_tac drop_shorter)
    have unf: "batches b xs = take b xs # batches b (drop b xs)"
      using False 1(2) by (simp add: batches_unfold)
    show ?thesis
    proof (cases i)
      case 0
      with 1(3) unf have "batches b (drop b xs) \<noteq> []" by auto
      then have "drop b xs \<noteq> []" by (auto simp: batches_Nil)
      then have "b < length xs" by simp
      with 0 unf show ?thesis by simp
    next
      case (Suc j)
      with 1(3) unf have "Suc j < length (batches b (drop b xs))" by simp
      with 1(1) sh 1(2) have "length (batches b (drop b xs) ! j) = b" by blast
      with Suc unf show ?thesis by simp
    qed
  qed
qed

declare copy_batches.simps [simp del]

lemma exec_insert_facts:
  assumes "exec_insert e t cols r d = (x, d')"
  shows "d_log d' = d_log d @ [Insert t cols r]"
    and "d_committed d' = d_committed d"
    and "d_tables d' = d_tables d"
  using assms by (auto simp: exec_insert_def Let_def split: option.splits if_splits)

lemma executemany_facts:
  "executemany e t cols rs d = (x, d') \<Longrightarrow>
     (\<exists>k\<le>length rs. d_log d' = d_log d @ map (Insert t cols) (take k rs)
        \<and> (x = None \<longrightarrow> k = length rs))
     \<and> d_committed d' = d_committed d \<and> d_tables d' = d_tables d"
proof (induction rs arbitrary: d)
  case Nil
  then show ?case by simp
next
  case (Cons r rs)
  obtain y d1 where step: "exec_insert e t cols r d = (y, d1)"
    by (cases "exec_insert e t cols r d")
  note f = exec_insert_facts [OF step]
  show ?case
  proof (cases y)
    case (Some z)
    with Cons.prems step have "x = Some z" "d' = d1" by simp_all
    with f show ?thesis
      by (intro conjI exI [of _ 1]) simp_all
  next
    case None
    with Cons.prems step have "executemany e t cols rs d1 = (x, d')" by simp
    from Cons.IH [OF this] obtain k where k: "k \<le> length rs"
      "d_log d' = d_log d1 @ map (Insert t cols) (take k rs)" "x = None \<longrightarrow> k = length rs"
      and rest: "d_committed d' = d_committed d1" "d_tables d' = d_tables d1"
      by blast
    with f show ?thesis
      by (intro conjI exI [of _ "Suc k"]) simp_all
  qed
qed

lemma executemany_ok:
  assumes "executemany e t cols rs d = (None, d')"
  shows "d_log d' = d_log d @ map (Insert t cols) rs"
    and "d_committed d' = d_committed d"
    and "d_tables d' = d_tables d"
  using executemany_facts [OF assms] by auto

lemma commit_facts:
  assumes "commit e d = (x, d')"
  shows "d_log d' = d_log d @ [Commit]"
    and "d_tables d' = d_tables d"
    and "x = None \<Longrightarrow> d_committed d' = d_committed d @ d_pending d"
    and "x = None \<Longrightarrow> d_pending d' = []"
    and "x \<noteq> None \<Longrightarrow> d_committed d' = d_committed d"
  using assms by (auto simp: commit_def split: option.splits)

lemma rollback_facts:
  "d_log (rollback d) = d_log d @ [Rollback]"
  "d_committed (rollback d) = d_committed d"
  "d_pending (rollback d) = []"
  "d_tables (rollback d) = d_tables d"
  by (simp_all add: rollback_def)

lemma world_simps [simp]:
  "dst (print ev w) = dst w"
  "out (print ev w) = out w @ [ev]"
  "stdin (print ev w) = stdin w"
  by (simp_all add: print_def)

lemma copy_batches_nil: "copy_batches e t cols b [] m w = (Inr m, w)"
  by (subst copy_batches.simps) simp

lemma copy_batches_zero: "copy_batches e t cols 0 todo m w = (Inr m, w)"
  by (subst copy_batches.simps) simp

lemma copy_batches_step:
  assumes "0 < b" "todo \<noteq> []"
    and "executemany e t cols (take b todo) (dst w) = (None, d1)"
    and "commit e d1 = (None, d2)"
  shows "copy_batches e t cols b todo m w =
         copy_batches e t cols b (drop b todo) (m + length (take b todo))
           (print (Progress (m + length (take b todo))) (w\<lparr>dst := d2\<rparr>))"
  using assms by (subst copy_batches.simps) (simp add: Let_def)

lemma copy_batches_success:
  assumes "0 < b"
  shows "copy_batches e t cols b todo m w = (Inr n, w') \<Longrightarrow>
     n = m + length todo
     \<and> d_log (dst w') = d_log (dst w)
         @ concat (map (\<lambda>batch. map (Insert t cols) batch @ [Commit]) (batches b todo))"
proof (induction todo arbitrary: m w rule: length_induct)
  case (1 todo)
  show ?case
  proof (cases "todo = []")
    case True
    with 1(2) show ?thesis by (simp add: copy_batches_nil batches_Nil)
  next
    case False
    obtain x d1 where ex: "executemany e t cols (take b todo) (dst w) = (x, d1)"
      by (cases "executemany e t cols (take b todo) (dst w)")
    obtain y d2 where co: "commit e d1 = (y, d2)"
      by (cases "commit e d1")
    from False assms have ne: "take b todo \<noteq> []" by (cases todo) auto
    have x: "x = None"
      using 1(2) ex ne by (subst (asm) copy_batches.simps) (auto simp: Let_def split: if_splits option.splits)
    have y: "y = None"
      using 1(2) ex co ne x
      by (subst (asm) copy_batches.simps) (auto simp: Let_def split: if_splits option.splits)
    let ?w1 = "print (Progress (m + length (take b todo))) (w\<lparr>dst := d2\<rparr>)"
    have rec: "copy_batches e t cols b (drop b todo) (m + length (take b todo)) ?w1 = (Inr n, w')"
      using 1(2) copy_batches_step [OF assms False, of e t cols w d1 d2 m] ex co x y by simp
    have shorter: "length (drop b todo) < length todo"
      using False assms by (cases todo) auto
    from 1(1) [rule_format, OF shorter rec]
    have n: "n = m + length (take b todo) + length (drop b todo)"
      and lg: "d_log (dst w') = d_log d2
         @ concat (map (\<lambda>batch. map (Insert t cols) batch @ [Commit]) (batches b (drop b todo)))"
      by simp_all
    have d2: "d_log d2 = d_log (dst w) @ map (Insert t cols) (take b todo) @ [Commit]"
      using executemany_ok(1) [of e t cols "take b todo" "dst w" d1] commit_facts(1) [OF co] ex x
      by simp
    have unf: "batches b todo = take b todo # batches b (drop b todo)"
      using False assms by (simp add: batches_unfold)
    from n lg d2 unf show ?thesis by simp
  qed
qed

lemmas run_defs = migrate_table_def select_all_def copy_batches.simps exec_insert_def
  commit_def rollback_def print_def Let_def

lemma select_all_print [simp]: "select_all e s (dst (print ev w)) = select_all e s (dst w)"
  by simp

lemma copy_batches_append:
  assumes b: "0 < b"
  shows "length xs mod b = 0 \<Longrightarrow> copy_batches e t cols b xs m w = (Inr m1, w1)
    \<Longrightarrow> copy_batches e t cols b (xs @ ys) m w = copy_batches e t cols b ys m1 w1"
proof (induction xs arbitrary: m w rule: length_induct)
  case (1 xs)
  show ?case
  proof (cases "xs = []")
    case True
    with 1(3) show ?thesis by (simp add: copy_batches_nil)
  next
    case False
    from False 1(2) b have len: "b \<le> length xs"
      by (metis length_0_conv mod_less not_le_imp_less)
    then have tk: "take b (xs @ ys) = take b xs" and dr: "drop b (xs @ ys) = drop b xs @ ys"
      by simp_all
    from False b have ne: "take b xs \<noteq> []" by (cases xs) auto
    obtain x d1 where ex: "executemany e t cols (take b xs) (dst w) = (x, d1)"
      by (cases "executemany e t cols (take b xs) (dst w)")
    obtain y d2 where co: "commit e d1 = (y, d2)"
      by (cases "commit e d1")
    have x: "x = None"
      using 1(3) ex ne
      by (subst (asm) copy_batches.simps) (auto simp: Let_def split: if_splits option.splits)
    have y: "y = None"
      using 1(3) ex co ne x
      by (subst (asm) copy_batches.simps) (auto simp: Let_def split: if_splits option.splits)
    let ?m = "m + length (take b xs)"
    let ?w = "print (Progress ?m) (w\<lparr>dst := d2\<rparr>)"
    have rec: "copy_batches e t cols b (drop b xs) ?m ?w = (Inr m1, w1)"
      using 1(3) copy_batches_step [OF b False, of e t cols w d1 d2 m] ex co x y by simp
    have shorter: "length (drop b xs) < length xs"
      using False b by (rule_tac drop_shorter)
    have md: "length (drop b xs) mod b = 0"
      using 1(2) len by (simp add: le_mod_geq)
    have ne2: "xs @ ys \<noteq> []" using False by simp
    have ex2: "executemany e t cols (take b (xs @ ys)) (dst w) = (None, d1)"
      using ex x by (simp only: tk)
    have co2: "commit e d1 = (None, d2)" using co y by simp
    have "copy_batches e t cols b (xs @ ys) m w
          = copy_batches e t cols b (drop b (xs @ ys)) (m + length (take b (xs @ ys)))
              (print (Progress (m + length (take b (xs @ ys)))) (w\<lparr>dst := d2\<rparr>))"
      by (rule copy_batches_step [OF b ne2 ex2 co2])
    also have "\<dots> = copy_batches e t cols b (drop b xs @ ys) ?m ?w"
      by (simp only: tk dr)
    also have "\<dots> = copy_batches e t cols b ys m1 w1"
      using 1(1) [rule_format, OF shorter md rec] .
    finally show ?thesis .
  qed
qed

lemma copy_batches_fail:
  assumes "executemany e t cols (take b todo) (dst w) = (Some x, d1)" and "is_Exception x"
  shows "copy_batches e t cols b todo m w
         = (Inl x, print (ErrorInserting x) (w\<lparr>dst := rollback d1\<rparr>))"
proof -
  from assms(1) have "take b todo \<noteq> []" by (cases "take b todo") auto
  with assms show ?thesis by (subst copy_batches.simps) (simp add: Let_def)
qed

text \<open>
  C9. Copying a source table that has no rows sends no statement to the destination:
  \<^verbatim>\<open>migrate_table\<close> returns 0 and leaves the destination as it was (no insert, no commit);
  only the two messages of lines 103 and 142 are printed.
\<close>

theorem migrate_table_no_rows:
  assumes "select_all e s (dst w) = Inr rel" and "rel_rows rel = []"
  shows "migrate_table e s t b w = (Inr 0, print (Completed 0) (print (Migrating s t) w))
       \<and> dst (snd (migrate_table e s t b w)) = dst w"
  using assms by (simp add: migrate_table_def Let_def copy_batches_nil)

theorem migrate_table_no_rows_witness:
  "select_all (quiet shop) ''no_rows'' (dst w0) = Inr no_rows
   \<and> rel_rows no_rows = []
   \<and> migrate_table (quiet shop) ''no_rows'' ''no_rows'' 1000 w0
       = (Inr 0, print (Completed 0) (print (Migrating ''no_rows'' ''no_rows'') w0))
   \<and> d_log (dst (snd (migrate_table (quiet shop) ''no_rows'' ''no_rows'' 1000 w0))) = []"
  using migrate_table_no_rows [of "quiet shop" "''no_rows''" w0 no_rows "''no_rows''" 1000]
  by (simp add: select_all_def quiet_def shop_def no_rows_def w0_def dest0_def empty_dest_def print_def)

text \<open>
  C4. With a positive batch size \<open>b\<close>, a copy of a table of \<open>n\<close> rows that succeeds returns
  \<open>n\<close>, the number of rows read, and its journal is, batch after batch, the inserts of
  the batch followed by one commit. The batches are the rows in order, cut every \<open>b\<close>
  rows: there are \<open>\<lceil>n / b\<rceil>\<close> of them, each but the last of \<open>b\<close> rows, none empty and
  none longer than \<open>b\<close>.
\<close>

theorem migrate_table_batches:
  assumes "0 < b" and "select_all e s (dst w) = Inr rel"
    and "migrate_table e s t b w = (Inr n, w')"
  shows "n = length (rel_rows rel)
    \<and> d_log (dst w') = d_log (dst w)
        @ concat (map (\<lambda>batch. map (Insert t (rel_columns rel)) batch @ [Commit])
                   (batches b (rel_rows rel)))
    \<and> concat (batches b (rel_rows rel)) = rel_rows rel
    \<and> length (batches b (rel_rows rel)) = (length (rel_rows rel) + b - 1) div b
    \<and> (\<forall>i. Suc i < length (batches b (rel_rows rel))
          \<longrightarrow> length (batches b (rel_rows rel) ! i) = b)
    \<and> (\<forall>batch \<in> set (batches b (rel_rows rel)). 0 < length batch \<and> length batch \<le> b)"
proof -
  obtain r w2 where cb:
    "copy_batches e t (rel_columns rel) b (rel_rows rel) 0 (print (Migrating s t) w) = (r, w2)"
    by (cases "copy_batches e t (rel_columns rel) b (rel_rows rel) 0 (print (Migrating s t) w)")
  with assms(2,3) have r: "r = Inr n" and w': "w' = print (Completed n) w2"
    by (auto simp: migrate_table_def Let_def split: sum.splits)
  from copy_batches_success [OF assms(1) cb [unfolded r]]
  have "n = length (rel_rows rel)"
    and "d_log (dst w2) = d_log (dst w)
        @ concat (map (\<lambda>batch. map (Insert t (rel_columns rel)) batch @ [Commit])
                   (batches b (rel_rows rel)))"
    by simp_all
  moreover have "\<forall>batch \<in> set (batches b (rel_rows rel)). 0 < length batch \<and> length batch \<le> b"
    using batches_sizes [OF assms(1)] by blast
  moreover have "\<forall>i. Suc i < length (batches b (rel_rows rel))
          \<longrightarrow> length (batches b (rel_rows rel) ! i) = b"
    using batches_full [OF assms(1)] by blast
  moreover have "d_log (dst w') = d_log (dst w2)" using w' by simp
  ultimately show ?thesis
    using concat_batches [OF assms(1), of "rel_rows rel"]
      length_batches [OF assms(1), of "rel_rows rel"]
    by (simp only: simp_thms)
qed

theorem migrate_table_batches_witness:
  "(0::nat) < 2
   \<and> select_all dup3 ''items'' (dst w0) = Inr items
   \<and> fst (migrate_table dup3 ''items'' ''items'' 2 w0) = Inr 5
   \<and> d_log (dst (snd (migrate_table dup3 ''items'' ''items'' 2 w0)))
       = [Insert ''items'' [''id'', ''v''] [''1'', ''a''],
          Insert ''items'' [''id'', ''v''] [''2'', ''b''], Commit,
          Insert ''items'' [''id'', ''v''] [''3'', ''c''],
          Insert ''items'' [''id'', ''v''] [''4'', ''d''], Commit,
          Insert ''items'' [''id'', ''v''] [''5'', ''e''], Commit]
   \<and> map length (batches 2 (rel_rows items)) = [2, 2, 1]
   \<and> length (d_committed (dst (snd (migrate_table dup3 ''items'' ''items'' 2 w0)))) = 4"
  using migrate_table_batches [of 2 dup3 "''items''" w0 items "''items''" 5
      "snd (migrate_table dup3 ''items'' ''items'' 2 w0)"]
  by (simp add: run_defs dup3_def shop_def items_def w0_def dest0_def empty_dest_def batches.simps)

text \<open>
  C3. Let the rows of the table be \<open>done @ rest\<close>, where \<open>done\<close> is a whole number of
  batches that were all inserted and committed, leaving the world \<open>w1\<close>, and let the
  insert of the next batch raise the \<^verbatim>\<open>Exception\<close> \<open>x\<close>. Then \<^verbatim>\<open>migrate_table\<close> raises \<open>x\<close>
  to its caller; the destination is rolled back, so what is committed is exactly what
  the earlier batches committed and nothing is pending; and the journal ends with the
  statements of the failing batch, at most \<open>b\<close>, and the rollback: no retry and no later
  batch.
\<close>

theorem batch_failure_aborts_table:
  assumes "0 < b"
    and "select_all e s (dst w) = Inr rel"
    and "rel_rows rel = done @ rest" and "length done mod b = 0"
    and "copy_batches e t (rel_columns rel) b done 0 (print (Migrating s t) w) = (Inr m, w1)"
    and "executemany e t (rel_columns rel) (take b rest) (dst w1) = (Some x, d2)"
    and "is_Exception x"
  shows "migrate_table e s t b w = (Inl x, print (ErrorInserting x) (w1\<lparr>dst := rollback d2\<rparr>))
    \<and> d_committed (rollback d2) = d_committed (dst w1)
    \<and> d_pending (rollback d2) = []
    \<and> (\<exists>k\<le>b. d_log (rollback d2)
          = d_log (dst w1) @ map (Insert t (rel_columns rel)) (take k rest) @ [Rollback])"
proof -
  have "copy_batches e t (rel_columns rel) b (rel_rows rel) 0 (print (Migrating s t) w)
        = copy_batches e t (rel_columns rel) b rest m w1"
    using copy_batches_append [OF assms(1,4,5)] assms(3) by simp
  also have "\<dots> = (Inl x, print (ErrorInserting x) (w1\<lparr>dst := rollback d2\<rparr>))"
    using copy_batches_fail [OF assms(6,7)] .
  finally have 1: "migrate_table e s t b w
      = (Inl x, print (ErrorInserting x) (w1\<lparr>dst := rollback d2\<rparr>))"
    using assms(2) by (simp add: migrate_table_def Let_def)
  from executemany_facts [OF assms(6)] obtain k where k: "k \<le> length (take b rest)"
    "d_log d2 = d_log (dst w1) @ map (Insert t (rel_columns rel)) (take k (take b rest))"
    and c: "d_committed d2 = d_committed (dst w1)"
    by blast
  from k(1) have kb: "k \<le> b" by simp
  then have "take k (take b rest) = take k rest" by (simp add: min_absorb1)
  with k(2) kb have "\<exists>k\<le>b. d_log (rollback d2)
          = d_log (dst w1) @ map (Insert t (rel_columns rel)) (take k rest) @ [Rollback]"
    by (auto simp: rollback_facts)
  with 1 c show ?thesis by (simp add: rollback_facts)
qed

theorem batch_failure_aborts_table_witness:
  "(0::nat) < 2
   \<and> select_all reject5 ''items'' (dst w0) = Inr items
   \<and> fst (copy_batches reject5 ''items'' [''id'', ''v''] 2
           [[''1'', ''a''], [''2'', ''b''], [''3'', ''c''], [''4'', ''d'']] 0
           (print (Migrating ''items'' ''items'') w0)) = Inr 4
   \<and> fst (migrate_table reject5 ''items'' ''items'' 2 w0) = Inl (Exception ''rejected'')
   \<and> d_committed (dst (snd (migrate_table reject5 ''items'' ''items'' 2 w0)))
       = [(''items'', [''id'', ''v''], [''1'', ''a'']), (''items'', [''id'', ''v''], [''2'', ''b'']),
          (''items'', [''id'', ''v''], [''3'', ''c'']), (''items'', [''id'', ''v''], [''4'', ''d''])]
   \<and> d_log (dst (snd (migrate_table reject5 ''items'' ''items'' 2 w0)))
       = [Insert ''items'' [''id'', ''v''] [''1'', ''a''],
          Insert ''items'' [''id'', ''v''] [''2'', ''b''], Commit,
          Insert ''items'' [''id'', ''v''] [''3'', ''c''],
          Insert ''items'' [''id'', ''v''] [''4'', ''d''], Commit,
          Insert ''items'' [''id'', ''v''] [''5'', ''e''], Rollback]"
  using batch_failure_aborts_table [of 2 reject5 "''items''" w0 items
      "[[''1'', ''a''], [''2'', ''b''], [''3'', ''c''], [''4'', ''d'']]" "[[''5'', ''e'']]"
      "''items''" 4
      "snd (copy_batches reject5 ''items'' [''id'', ''v''] 2
           [[''1'', ''a''], [''2'', ''b''], [''3'', ''c''], [''4'', ''d'']] 0
           (print (Migrating ''items'' ''items'') w0))"
      "Exception ''rejected''"
      "snd (executemany reject5 ''items'' [''id'', ''v''] [[''5'', ''e'']]
           (dst (snd (copy_batches reject5 ''items'' [''id'', ''v''] 2
           [[''1'', ''a''], [''2'', ''b''], [''3'', ''c''], [''4'', ''d'']] 0
           (print (Migrating ''items'' ''items'') w0)))))"]
  by (simp add: run_defs reject5_def shop_def items_def w0_def dest0_def empty_dest_def)

subsection \<open>The run over the plan\<close>

lemmas sample_defs = shop_def items_def no_rows_def old_users_def single_def public_column_def
  public_table_def dest0_def empty_dest_def w0_def w_yes_def w_no_def w_orders_def quiet_def

lemmas migrate_defs = migrate_def select_tables_def require_selection_def get_tables_def
  tables_query_def tables_where_def run_plan_def confirm_def input_def get_table_info_def
  columns_query_def strip_def is_space_def lower_def lower_char_def table_exists_def
  exists_query_def dest_name_def

lemma issued_mono: "set rows \<subseteq> set rows' \<Longrightarrow> issued t cols rows \<subseteq> issued t cols rows'"
  by (auto simp: issued_def)

lemma executemany_issued:
  assumes "executemany e t cols rs d = (x, d')"
  shows "\<exists>ext. d_log d' = d_log d @ ext \<and> set ext \<subseteq> issued t cols rs"
proof -
  from executemany_facts [OF assms] obtain k where
    "d_log d' = d_log d @ map (Insert t cols) (take k rs)" by blast
  moreover have "set (map (Insert t cols) (take k rs)) \<subseteq> issued t cols rs"
    using set_take_subset [of k rs] by (auto simp: issued_def)
  ultimately show ?thesis by blast
qed

lemma copy_batches_cases:
  assumes "take b todo \<noteq> []"
    and "executemany e t cols (take b todo) (dst w) = (x, d1)"
    and "commit e d1 = (y, d2)"
  shows "copy_batches e t cols b todo m w =
     (case x of
        Some z \<Rightarrow> if is_Exception z
                  then (Inl z, print (ErrorInserting z) (w\<lparr>dst := rollback d1\<rparr>))
                  else (Inl z, w\<lparr>dst := d1\<rparr>)
      | None \<Rightarrow>
         (case y of
            Some z \<Rightarrow> if is_Exception z
                  then (Inl z, print (ErrorInserting z) (w\<lparr>dst := rollback d2\<rparr>))
                  else (Inl z, w\<lparr>dst := d2\<rparr>)
          | None \<Rightarrow> copy_batches e t cols b (drop b todo) (m + length (take b todo))
                     (print (Progress (m + length (take b todo))) (w\<lparr>dst := d2\<rparr>))))"
  using assms by (subst copy_batches.simps) (simp add: Let_def split: option.splits)

lemma copy_batches_frame:
  "copy_batches e t cols b todo m w = (r, w') \<Longrightarrow>
     stdin w' = stdin w \<and> d_tables (dst w') = d_tables (dst w)
     \<and> (\<exists>evs. out w' = out w @ evs \<and> list_all silent evs)
     \<and> (\<exists>ext. d_log (dst w') = d_log (dst w) @ ext \<and> set ext \<subseteq> issued t cols todo)"
proof (induction todo arbitrary: m w rule: length_induct)
  case (1 todo)
  show ?case
  proof (cases "take b todo = []")
    case True
    with 1(2) have "w' = w" by (subst (asm) copy_batches.simps) simp
    then show ?thesis by simp
  next
    case False
    then have b: "0 < b" and ne: "todo \<noteq> []" by auto
    obtain x d1 where ex: "executemany e t cols (take b todo) (dst w) = (x, d1)"
      by (cases "executemany e t cols (take b todo) (dst w)")
    obtain y d2 where co: "commit e d1 = (y, d2)"
      by (cases "commit e d1")
    note eq = copy_batches_cases [OF False ex co, of m]
    from executemany_issued [OF ex] obtain ext1 where
      l1: "d_log d1 = d_log (dst w) @ ext1" and s1: "set ext1 \<subseteq> issued t cols (take b todo)"
      by blast
    have "issued t cols (take b todo) \<subseteq> issued t cols todo"
      by (rule issued_mono) (rule set_take_subset)
    with s1 have s1': "set ext1 \<subseteq> issued t cols todo" by blast
    have t1: "d_tables d1 = d_tables (dst w)"
      using executemany_facts [OF ex] by simp
    have l2: "d_log d2 = d_log (dst w) @ ext1 @ [Commit]" and t2: "d_tables d2 = d_tables (dst w)"
      using commit_facts(1,2) [OF co] l1 t1 by simp_all
    have c_in: "Commit \<in> issued t cols todo" "Rollback \<in> issued t cols todo"
      by (simp_all add: issued_def)
    show ?thesis
    proof (cases x)
      case (Some z)
      with eq 1(2) have "w' = (if is_Exception z
          then print (ErrorInserting z) (w\<lparr>dst := rollback d1\<rparr>) else w\<lparr>dst := d1\<rparr>)"
        by (simp split: if_splits)
      with l1 s1' t1 c_in show ?thesis
        by (cases "is_Exception z") (simp_all add: rollback_facts)
    next
      case None
      note xn = this
      show ?thesis
      proof (cases y)
        case (Some z)
        with eq xn 1(2) have "w' = (if is_Exception z
            then print (ErrorInserting z) (w\<lparr>dst := rollback d2\<rparr>) else w\<lparr>dst := d2\<rparr>)"
          by (simp split: if_splits)
        with l2 s1' t2 c_in show ?thesis
          by (cases "is_Exception z") (simp_all add: rollback_facts)
      next
        case None
        let ?m = "m + length (take b todo)"
        let ?w = "print (Progress ?m) (w\<lparr>dst := d2\<rparr>)"
        from eq xn None 1(2) have rec: "copy_batches e t cols b (drop b todo) ?m ?w = (r, w')"
          by simp
        have sh: "length (drop b todo) < length todo"
          using b ne by (rule drop_shorter)
        from 1(1) [rule_format, OF sh rec] obtain evs ext where
          st: "stdin w' = stdin w" and tb: "d_tables (dst w') = d_tables d2"
          and ev: "out w' = out w @ Progress ?m # evs" "list_all silent evs"
          and lg: "d_log (dst w') = d_log d2 @ ext" "set ext \<subseteq> issued t cols (drop b todo)"
          by auto
        have "issued t cols (drop b todo) \<subseteq> issued t cols todo"
          by (rule issued_mono) (rule set_drop_subset)
        with lg(2) have "set ext \<subseteq> issued t cols todo" by blast
        with st tb t2 ev lg(1) l2 s1' c_in show ?thesis by simp
      qed
    qed
  qed
qed

lemma migrate_table_frame:
  assumes "migrate_table e s t b w = (r, w')"
  shows "stdin w' = stdin w" and "d_tables (dst w') = d_tables (dst w)"
    and "\<exists>evs. out w' = out w @ Migrating s t # evs
              @ (case r of Inr n \<Rightarrow> [Completed n] | Inl x \<Rightarrow> [])
           \<and> list_all silent evs"
    and "\<exists>ext. d_log (dst w') = d_log (dst w) @ ext
           \<and> set ext \<subseteq> insert Commit (insert Rollback
                {Insert t (rel_columns rel) row | rel row.
                   s_relations (src e) s = Some rel \<and> row \<in> set (rel_rows rel)})"
proof -
  let ?w1 = "print (Migrating s t) w"
  show "stdin w' = stdin w" "d_tables (dst w') = d_tables (dst w)"
    using assms copy_batches_frame [of e t _ b _ 0 ?w1]
    by (auto simp: migrate_table_def Let_def split: sum.splits prod.splits)
  show "\<exists>evs. out w' = out w @ Migrating s t # evs
              @ (case r of Inr n \<Rightarrow> [Completed n] | Inl x \<Rightarrow> [])
           \<and> list_all silent evs"
  proof (cases "select_all e s (dst w)")
    case (Inl x)
    with assms show ?thesis by (auto simp: migrate_table_def Let_def)
  next
    case (Inr rel)
    obtain r2 w2 where cb:
      "copy_batches e t (rel_columns rel) b (rel_rows rel) 0 ?w1 = (r2, w2)"
      by (cases "copy_batches e t (rel_columns rel) b (rel_rows rel) 0 ?w1")
    from copy_batches_frame [OF cb] obtain evs where
      "out w2 = out w @ Migrating s t # evs" "list_all silent evs" by auto
    with assms Inr cb show ?thesis
      by (cases r2) (auto simp: migrate_table_def Let_def)
  qed
  show "\<exists>ext. d_log (dst w') = d_log (dst w) @ ext
           \<and> set ext \<subseteq> insert Commit (insert Rollback
                {Insert t (rel_columns rel) row | rel row.
                   s_relations (src e) s = Some rel \<and> row \<in> set (rel_rows rel)})"
  proof (cases "select_all e s (dst w)")
    case (Inl x)
    with assms show ?thesis by (auto simp: migrate_table_def Let_def)
  next
    case (Inr rel)
    then have rel: "s_relations (src e) s = Some rel"
      by (auto simp: select_all_def split: option.splits)
    obtain r2 w2 where cb:
      "copy_batches e t (rel_columns rel) b (rel_rows rel) 0 ?w1 = (r2, w2)"
      by (cases "copy_batches e t (rel_columns rel) b (rel_rows rel) 0 ?w1")
    from copy_batches_frame [OF cb] obtain ext where
      "d_log (dst w2) = d_log (dst w) @ ext"
      "set ext \<subseteq> issued t (rel_columns rel) (rel_rows rel)" by auto
    moreover have "dst w' = dst w2"
      using assms Inr cb by (cases r2) (auto simp: migrate_table_def Let_def)
    ultimately show ?thesis using rel by (auto simp: issued_def)
  qed
qed

lemma plan_stmts_Cons: "plan_stmts e tm skip cat plan \<subseteq> plan_stmts e tm skip cat (s # plan)"
  by (auto simp: plan_stmts_def)

lemma plan_stmts_head:
  assumes "skip \<longrightarrow> \<not> exists_query cat (dest_name tm s)"
  shows "insert Commit (insert Rollback
                {Insert (dest_name tm s) (rel_columns rel) row | rel row.
                   s_relations (src e) s = Some rel \<and> row \<in> set (rel_rows rel)})
         \<subseteq> plan_stmts e tm skip cat (s # plan)"
  using assms by (auto simp: plan_stmts_def)

lemma copy_tables_skip:
  assumes "(if skip then table_exists e (dest_name tm s) (dst w) else Inr False) = Inr True"
  shows "copy_tables e tm skip b (s # rest) tot0 w
         = copy_tables e tm skip b rest tot0 (print (Skipping s) w)"
  using assms by (simp add: Let_def)

lemma copy_tables_raise:
  assumes "(if skip then table_exists e (dest_name tm s) (dst w) else Inr False) = Inl x"
  shows "copy_tables e tm skip b (s # rest) tot0 w = (Inl x, w)"
  using assms by (simp add: Let_def)

lemma copy_tables_copy:
  assumes "(if skip then table_exists e (dest_name tm s) (dst w) else Inr False) = Inr False"
    and "migrate_table e s (dest_name tm s) b w = (r1, w1)"
  shows "copy_tables e tm skip b (s # rest) tot0 w =
     (case r1 of
        Inr rows \<Rightarrow> copy_tables e tm skip b rest (tot0 + rows) w1
      | Inl x \<Rightarrow> if is_Exception x
                 then copy_tables e tm skip b rest tot0 (print (Failed s x) w1)
                 else (Inl x, w1))"
  using assms by (simp add: Let_def split: sum.splits)

lemma exists_answer:
  "(if skip then table_exists e t d else Inr False) = Inr False
   \<Longrightarrow> skip \<longrightarrow> \<not> exists_query (d_tables d) t"
  by (auto simp: table_exists_def split: if_splits option.splits)

lemma copy_tables_journal:
  "copy_tables e tm skip b plan tot0 w = (r, w') \<Longrightarrow>
     stdin w' = stdin w \<and> d_tables (dst w') = d_tables (dst w)
     \<and> (\<exists>ext. d_log (dst w') = d_log (dst w) @ ext
            \<and> set ext \<subseteq> plan_stmts e tm skip (d_tables (dst w)) plan)"
proof (induction plan arbitrary: tot0 w)
  case Nil
  then show ?case by simp
next
  case (Cons s rest)
  let ?t = "dest_name tm s"
  let ?chk = "if skip then table_exists e ?t (dst w) else Inr False"
  let ?cat = "d_tables (dst w)"
  note up = plan_stmts_Cons [of e tm skip ?cat rest s]
  let ?G = "stdin w' = stdin w \<and> d_tables (dst w') = d_tables (dst w)
     \<and> (\<exists>ext. d_log (dst w') = d_log (dst w) @ ext
            \<and> set ext \<subseteq> plan_stmts e tm skip (d_tables (dst w)) (s # rest))"
  show ?case
  proof (cases ?chk)
    case (Inl x)
    with Cons.prems copy_tables_raise [OF Inl, of b rest tot0] show ?thesis by simp
  next
    case (Inr ans)
    show ?thesis
    proof (cases ans)
      case True
      with Inr Cons.prems copy_tables_skip [of skip e tm s w b rest tot0]
      have "copy_tables e tm skip b rest tot0 (print (Skipping s) w) = (r, w')" by simp
      from Cons.IH [OF this] up show ?thesis by auto
    next
      case False
      with Inr have chk: "?chk = Inr False" by simp
      obtain r1 w1 where mt: "migrate_table e s ?t b w = (r1, w1)"
        by (cases "migrate_table e s ?t b w")
      note fr = migrate_table_frame [OF mt]
      from fr(4) obtain ext1 where l1: "d_log (dst w1) = d_log (dst w) @ ext1"
        and s1: "set ext1 \<subseteq> plan_stmts e tm skip ?cat (s # rest)"
        using plan_stmts_head [OF exists_answer [OF chk], of e rest] by blast
      note eq = copy_tables_copy [OF chk mt, of rest tot0]
      have tail: "\<And>w2 tot. dst w2 = dst w1 \<Longrightarrow> stdin w2 = stdin w1
          \<Longrightarrow> copy_tables e tm skip b rest tot w2 = (r, w') \<Longrightarrow> ?G"
      proof -
        fix w2 tot
        assume d: "dst w2 = dst w1" and i: "stdin w2 = stdin w1"
          and c: "copy_tables e tm skip b rest tot w2 = (r, w')"
        from Cons.IH [OF c] d i fr(1,2) obtain ext2 where
          "stdin w' = stdin w" "d_tables (dst w') = ?cat"
          "d_log (dst w') = d_log (dst w1) @ ext2"
          "set ext2 \<subseteq> plan_stmts e tm skip ?cat rest"
          by auto
        with l1 s1 up show ?G by auto
      qed
      show ?thesis
      proof (cases r1)
        case (Inr rows)
        with eq Cons.prems have "copy_tables e tm skip b rest (tot0 + rows) w1 = (r, w')"
          by simp
        then show ?thesis by (rule tail [OF refl refl])
      next
        case (Inl x)
        show ?thesis
        proof (cases "is_Exception x")
          case True
          with Inl eq Cons.prems
          have "copy_tables e tm skip b rest tot0 (print (Failed s x) w1) = (r, w')" by simp
          then show ?thesis by (rule tail [rotated 2]) simp_all
        next
          case False
          with Inl eq Cons.prems have "w' = w1" by simp
          with fr(1,2) l1 s1 show ?thesis by auto
        qed
      qed
    qed
  qed
qed

lemma executemany_raises:
  "executemany e t cols rs d = (Some x, d') \<Longrightarrow> \<exists>d c. fault e d c = Some x"
proof (induction rs arbitrary: d)
  case Nil
  then show ?case by simp
next
  case (Cons r rs)
  then show ?case
    by (auto simp: exec_insert_def Let_def split: option.splits prod.splits if_splits)
qed

lemma commit_raises: "commit e d = (Some x, d') \<Longrightarrow> \<exists>d c. fault e d c = Some x"
  by (auto simp: commit_def split: option.splits)

lemma copy_batches_raises:
  "copy_batches e t cols b todo m w = (Inl x, w') \<Longrightarrow> \<exists>d c. fault e d c = Some x"
proof (induction todo arbitrary: m w rule: length_induct)
  case (1 todo)
  show ?case
  proof (cases "take b todo = []")
    case True
    with 1(2) show ?thesis by (subst (asm) copy_batches.simps) simp
  next
    case False
    then have b: "0 < b" and ne: "todo \<noteq> []" by auto
    obtain y d1 where ex: "executemany e t cols (take b todo) (dst w) = (y, d1)"
      by (cases "executemany e t cols (take b todo) (dst w)")
    obtain z d2 where co: "commit e d1 = (z, d2)"
      by (cases "commit e d1")
    note eq = copy_batches_cases [OF False ex co, of m]
    show ?thesis
    proof (cases y)
      case (Some u)
      with eq 1(2) have "u = x" by (simp split: if_splits)
      with Some ex executemany_raises show ?thesis by blast
    next
      case None
      note yn = this
      show ?thesis
      proof (cases z)
        case (Some u)
        with eq yn 1(2) have "u = x" by (simp split: if_splits)
        with Some co commit_raises show ?thesis by blast
      next
        case None
        with eq yn 1(2) have rec: "copy_batches e t cols b (drop b todo)
            (m + length (take b todo))
            (print (Progress (m + length (take b todo))) (w\<lparr>dst := d2\<rparr>)) = (Inl x, w')"
          by simp
        have sh: "length (drop b todo) < length todo"
          using b ne by (rule drop_shorter)
        from 1(1) [rule_format, OF sh rec] show ?thesis .
      qed
    qed
  qed
qed

lemma migrate_table_raises:
  assumes "migrate_table e s t b w = (Inl x, w')"
  shows "x = Exception ''UndefinedTable'' \<or> (\<exists>d c. fault e d c = Some x)"
proof (cases "select_all e s (dst w)")
  case (Inl y)
  with assms have "y = x" by (simp add: migrate_table_def Let_def)
  with Inl show ?thesis by (auto simp: select_all_def split: option.splits)
next
  case (Inr rel)
  obtain r2 w2 where cb: "copy_batches e t (rel_columns rel) b (rel_rows rel) 0
      (print (Migrating s t) w) = (r2, w2)"
    by (cases "copy_batches e t (rel_columns rel) b (rel_rows rel) 0 (print (Migrating s t) w)")
  with assms Inr have "r2 = Inl x" by (cases r2) (simp_all add: migrate_table_def Let_def)
  with cb copy_batches_raises show ?thesis by blast
qed

lemma migrate_table_success:
  assumes "0 < b" and "select_all e s (dst w) = Inr rel"
    and "migrate_table e s t b w = (Inr n, w')"
  shows "n = length (rel_rows rel)"
    and "d_log (dst w') = d_log (dst w)
        @ concat (map (\<lambda>batch. map (Insert t (rel_columns rel)) batch @ [Commit])
                   (batches b (rel_rows rel)))"
proof -
  obtain r w2 where cb:
    "copy_batches e t (rel_columns rel) b (rel_rows rel) 0 (print (Migrating s t) w) = (r, w2)"
    by (cases "copy_batches e t (rel_columns rel) b (rel_rows rel) 0 (print (Migrating s t) w)")
  with assms(2,3) have r: "r = Inr n" and w': "w' = print (Completed n) w2"
    by (auto simp: migrate_table_def Let_def split: sum.splits)
  from copy_batches_success [OF assms(1) cb [unfolded r]] w'
  show "n = length (rel_rows rel)"
    and "d_log (dst w') = d_log (dst w)
        @ concat (map (\<lambda>batch. map (Insert t (rel_columns rel)) batch @ [Commit])
                   (batches b (rel_rows rel)))"
    by simp_all
qed

lemma select_all_relation:
  "select_all e s d = Inr rel \<Longrightarrow> s_relations (src e) s = Some rel"
  by (auto simp: select_all_def split: option.splits)

lemma copy_tables_completed:
  assumes b: "0 < b"
    and chk: "skip \<longrightarrow> table_exists e (dest_name tm s) (dst v) = Inr False"
    and sel: "select_all e s (dst v) = Inr rel"
    and mt: "migrate_table e s (dest_name tm s) b v = (Inr n, v')"
  shows "copy_tables e tm skip b (s # rest) tot0 v = copy_tables e tm skip b rest (tot0 + n) v'"
    and "n = length (source_rows e s)"
    and "d_log (dst v') = d_log (dst v) @ table_stmts e tm b s"
proof -
  have c: "(if skip then table_exists e (dest_name tm s) (dst v) else Inr False) = Inr False"
    using chk by simp
  from copy_tables_copy [OF c mt, of rest tot0]
  show "copy_tables e tm skip b (s # rest) tot0 v = copy_tables e tm skip b rest (tot0 + n) v'"
    by simp
  from select_all_relation [OF sel] migrate_table_success [OF b sel mt]
  show "n = length (source_rows e s)"
    and "d_log (dst v') = d_log (dst v) @ table_stmts e tm b s"
    by (simp_all add: source_rows_def table_stmts_def)
qed

lemma migrate_table_quiet:
  assumes q: "\<forall>d c. fault e d c = None" and rel: "s_relations (src e) s = Some rel"
  shows "\<exists>n v'. migrate_table e s t b v = (Inr n, v')"
proof -
  obtain r v' where mt: "migrate_table e s t b v = (r, v')"
    by (cases "migrate_table e s t b v")
  show ?thesis
  proof (cases r)
    case (Inr n)
    with mt show ?thesis by blast
  next
    case (Inl x)
    with mt migrate_table_raises [of e s t b v x v'] q
    have "x = Exception ''UndefinedTable''" by simp
    moreover have "select_all e s (dst v) = Inr rel"
      using q rel by (simp add: select_all_def)
    ultimately show ?thesis
      using mt Inl copy_batches_raises [of e t "rel_columns rel" b "rel_rows rel" 0
          "print (Migrating s t) v" x] q
      by (auto simp: migrate_table_def Let_def split: prod.splits sum.splits)
  qed
qed

lemma copy_tables_quiet:
  assumes b: "0 < b" and q: "\<forall>d c. fault e d c = None"
  shows "\<forall>s \<in> set plan. s_relations (src e) s \<noteq> None
            \<and> (skip \<longrightarrow> \<not> exists_query (d_tables (dst w)) (dest_name tm s)) \<Longrightarrow>
     \<exists>w'. copy_tables e tm skip b plan tot0 w
             = (Inr (tot0 + sum_list (map (\<lambda>s. length (source_rows e s)) plan)), w')
        \<and> d_log (dst w') = d_log (dst w) @ concat (map (table_stmts e tm b) plan)"
proof (induction plan arbitrary: tot0 w)
  case Nil
  then show ?case by simp
next
  case (Cons s rest)
  from Cons.prems obtain rel where rel: "s_relations (src e) s = Some rel"
    and ne: "skip \<longrightarrow> \<not> exists_query (d_tables (dst w)) (dest_name tm s)"
    by auto
  have chk: "skip \<longrightarrow> table_exists e (dest_name tm s) (dst w) = Inr False"
    using q ne by (simp add: table_exists_def)
  have sel: "select_all e s (dst w) = Inr rel"
    using q rel by (simp add: select_all_def)
  from migrate_table_quiet [OF q rel] obtain n w1 where
    mt: "migrate_table e s (dest_name tm s) b w = (Inr n, w1)" by blast
  note st = copy_tables_completed(1) [OF b chk sel mt, of rest tot0]
    copy_tables_completed(2,3) [OF b chk sel mt]
  have tb: "d_tables (dst w1) = d_tables (dst w)"
    by (rule migrate_table_frame(2) [OF mt])
  have "\<forall>s \<in> set rest. s_relations (src e) s \<noteq> None
            \<and> (skip \<longrightarrow> \<not> exists_query (d_tables (dst w1)) (dest_name tm s))"
    using Cons.prems tb by simp
  from Cons.IH [OF this, of "tot0 + n"] obtain w' where
    "copy_tables e tm skip b rest (tot0 + n) w1
       = (Inr (tot0 + n + sum_list (map (\<lambda>s. length (source_rows e s)) rest)), w')"
    "d_log (dst w') = d_log (dst w1) @ concat (map (table_stmts e tm b) rest)"
    by blast
  with st show ?case by (intro exI [of _ w']) simp
qed

text \<open>
  C7. The destination name of a source table is the value the mapping gives it when the
  name is a key, and the name itself otherwise (also without a mapping). For a run of
  the loop over a plan:
  \<^item> every insert the run sends goes to the destination name of a table of the plan,
    with the column names of that source table, in the order of its \<^verbatim>\<open>SELECT *\<close>, and
    with one of its rows;
  \<^item> at a table \<open>s\<close> that is not skipped and whose copy succeeds, the loop has sent all
    the rows of \<open>s\<close>, in their order and batch after batch, as inserts into the
    destination name of \<open>s\<close> under the columns of \<open>s\<close>, has counted them, and goes on
    with the rest of the plan from there;
  \<^item> when nothing raises, every table of the plan is in the source and none is
    skipped, the journal of the whole run is exactly that of these copies, one table
    after the other in plan order, and the total is the number of rows of the plan's
    tables.
\<close>

theorem inserts_follow_mapping:
  assumes "copy_tables e tm skip b plan tot0 w = (r, w')"
  shows "(\<forall>s. dest_name tm s =
            (case tm of None \<Rightarrow> s
             | Some m \<Rightarrow> (case map_of m s of Some d \<Rightarrow> d | None \<Rightarrow> s)))
    \<and> (\<exists>ext. d_log (dst w') = d_log (dst w) @ ext
          \<and> (\<forall>t cols row. Insert t cols row \<in> set ext \<longrightarrow>
                (\<exists>s rel. s \<in> set plan \<and> t = dest_name tm s
                   \<and> s_relations (src e) s = Some rel
                   \<and> cols = rel_columns rel \<and> row \<in> set (rel_rows rel))))
    \<and> (\<forall>s rest rel n t0 v v'.
          0 < b \<and> (skip \<longrightarrow> table_exists e (dest_name tm s) (dst v) = Inr False)
          \<and> select_all e s (dst v) = Inr rel
          \<and> migrate_table e s (dest_name tm s) b v = (Inr n, v')
          \<longrightarrow> copy_tables e tm skip b (s # rest) t0 v
                = copy_tables e tm skip b rest (t0 + n) v'
              \<and> n = length (rel_rows rel)
              \<and> d_log (dst v') = d_log (dst v)
                  @ concat (map (\<lambda>batch. map (Insert (dest_name tm s) (rel_columns rel)) batch
                                         @ [Commit])
                             (batches b (rel_rows rel))))
    \<and> (0 < b \<and> (\<forall>d c. fault e d c = None)
        \<and> (\<forall>s \<in> set plan. s_relations (src e) s \<noteq> None
              \<and> (skip \<longrightarrow> \<not> exists_query (d_tables (dst w)) (dest_name tm s)))
        \<longrightarrow> r = Inr (tot0 + sum_list (map (\<lambda>s. length (source_rows e s)) plan))
            \<and> d_log (dst w') = d_log (dst w) @ concat (map (table_stmts e tm b) plan))"
proof -
  have 1: "\<forall>s. dest_name tm s =
            (case tm of None \<Rightarrow> s
             | Some m \<Rightarrow> (case map_of m s of Some d \<Rightarrow> d | None \<Rightarrow> s))"
    by (auto simp: dest_name_def split: option.splits)
  from copy_tables_journal [OF assms] obtain ext where
    ext: "d_log (dst w') = d_log (dst w) @ ext"
    "set ext \<subseteq> plan_stmts e tm skip (d_tables (dst w)) plan" by blast
  have "\<forall>t cols row. Insert t cols row \<in> set ext \<longrightarrow>
                (\<exists>s rel. s \<in> set plan \<and> t = dest_name tm s
                   \<and> s_relations (src e) s = Some rel
                   \<and> cols = rel_columns rel \<and> row \<in> set (rel_rows rel))"
  proof (intro allI impI)
    fix t cols row
    assume "Insert t cols row \<in> set ext"
    with ext(2) have "Insert t cols row \<in> plan_stmts e tm skip (d_tables (dst w)) plan"
      by blast
    then show "\<exists>s rel. s \<in> set plan \<and> t = dest_name tm s
                   \<and> s_relations (src e) s = Some rel
                   \<and> cols = rel_columns rel \<and> row \<in> set (rel_rows rel)"
      by (auto simp: plan_stmts_def)
  qed
  with ext(1) have 2: "\<exists>ext. d_log (dst w') = d_log (dst w) @ ext
          \<and> (\<forall>t cols row. Insert t cols row \<in> set ext \<longrightarrow>
                (\<exists>s rel. s \<in> set plan \<and> t = dest_name tm s
                   \<and> s_relations (src e) s = Some rel
                   \<and> cols = rel_columns rel \<and> row \<in> set (rel_rows rel)))"
    by blast
  have 3: "\<forall>s rest rel n t0 v v'.
          0 < b \<and> (skip \<longrightarrow> table_exists e (dest_name tm s) (dst v) = Inr False)
          \<and> select_all e s (dst v) = Inr rel
          \<and> migrate_table e s (dest_name tm s) b v = (Inr n, v')
          \<longrightarrow> copy_tables e tm skip b (s # rest) t0 v
                = copy_tables e tm skip b rest (t0 + n) v'
              \<and> n = length (rel_rows rel)
              \<and> d_log (dst v') = d_log (dst v)
                  @ concat (map (\<lambda>batch. map (Insert (dest_name tm s) (rel_columns rel)) batch
                                         @ [Commit])
                             (batches b (rel_rows rel)))"
  proof (intro allI impI, elim conjE)
    fix s rest rel n t0 v v'
    assume b: "0 < b"
      and chk: "skip \<longrightarrow> table_exists e (dest_name tm s) (dst v) = Inr False"
      and sel: "select_all e s (dst v) = Inr rel"
      and mt: "migrate_table e s (dest_name tm s) b v = (Inr n, v')"
    from copy_tables_completed(1) [OF b chk sel mt, of rest t0]
      migrate_table_success [OF b sel mt]
    show "copy_tables e tm skip b (s # rest) t0 v
                = copy_tables e tm skip b rest (t0 + n) v'
              \<and> n = length (rel_rows rel)
              \<and> d_log (dst v') = d_log (dst v)
                  @ concat (map (\<lambda>batch. map (Insert (dest_name tm s) (rel_columns rel)) batch
                                         @ [Commit])
                             (batches b (rel_rows rel)))"
      by simp
  qed
  have 4: "0 < b \<and> (\<forall>d c. fault e d c = None)
        \<and> (\<forall>s \<in> set plan. s_relations (src e) s \<noteq> None
              \<and> (skip \<longrightarrow> \<not> exists_query (d_tables (dst w)) (dest_name tm s)))
        \<longrightarrow> r = Inr (tot0 + sum_list (map (\<lambda>s. length (source_rows e s)) plan))
            \<and> d_log (dst w') = d_log (dst w) @ concat (map (table_stmts e tm b) plan)"
  proof (intro impI, elim conjE)
    assume b: "0 < b" and q: "\<forall>d c. fault e d c = None"
      and p: "\<forall>s \<in> set plan. s_relations (src e) s \<noteq> None
              \<and> (skip \<longrightarrow> \<not> exists_query (d_tables (dst w)) (dest_name tm s))"
    from copy_tables_quiet [OF b q p, of tot0] assms
    show "r = Inr (tot0 + sum_list (map (\<lambda>s. length (source_rows e s)) plan))
            \<and> d_log (dst w') = d_log (dst w) @ concat (map (table_stmts e tm b) plan)"
      by auto
  qed
  from 1 2 3 4 show ?thesis by blast
qed

text \<open>
  The mapping of \<^verbatim>\<open>old_users\<close> to \<^verbatim>\<open>users_v2\<close>, with the plan \<^verbatim>\<open>old_users\<close>, \<^verbatim>\<open>orders\<close>: the two
  rows of \<^verbatim>\<open>old_users\<close> go into \<^verbatim>\<open>users_v2\<close> under the columns of \<^verbatim>\<open>old_users\<close>, the row of
  \<^verbatim>\<open>orders\<close> into \<^verbatim>\<open>orders\<close>.
\<close>

theorem inserts_follow_mapping_witness:
  "dest_name (Some [(''old_users'', ''users_v2'')]) ''old_users'' = ''users_v2''
   \<and> dest_name (Some [(''old_users'', ''users_v2'')]) ''orders'' = ''orders''
   \<and> copy_tables (quiet shop) (Some [(''old_users'', ''users_v2'')]) False 1000
        [''old_users'', ''orders''] 0 w0
      = (Inr 3, snd (copy_tables (quiet shop) (Some [(''old_users'', ''users_v2'')]) False 1000
        [''old_users'', ''orders''] 0 w0))
   \<and> d_log (dst (snd (copy_tables (quiet shop) (Some [(''old_users'', ''users_v2'')]) False 1000
           [''old_users'', ''orders''] 0 w0)))
     = [Insert ''users_v2'' [''id'', ''email''] [''7'', ''ann@example.org''],
        Insert ''users_v2'' [''id'', ''email''] [''8'', ''bob@example.org''], Commit,
        Insert ''orders'' [''id''] [''9''], Commit]"
proof -
  let ?tm = "Some [(''old_users'', ''users_v2'')]"
  let ?run = "copy_tables (quiet shop) ?tm False 1000 [''old_users'', ''orders''] 0 w0"
  note t = inserts_follow_mapping [of "quiet shop" ?tm False 1000 "[''old_users'', ''orders'']"
      0 w0 "fst ?run" "snd ?run", OF prod.collapse [symmetric]]
  have names: "dest_name ?tm ''old_users'' = ''users_v2'' \<and> dest_name ?tm ''orders'' = ''orders''"
    using t by simp
  have hyp: "(0::nat) < 1000 \<and> (\<forall>d c. fault (quiet shop) d c = None)
     \<and> (\<forall>s \<in> set [''old_users'', ''orders'']. s_relations (src (quiet shop)) s \<noteq> None
           \<and> (False \<longrightarrow> \<not> exists_query (d_tables (dst w0)) (dest_name ?tm s)))"
    by (simp add: quiet_def shop_def)
  from t hyp have run: "fst ?run = Inr (0 + sum_list (map (\<lambda>s. length (source_rows (quiet shop) s))
                                   [''old_users'', ''orders'']))
     \<and> d_log (dst (snd ?run))
        = d_log (dst w0) @ concat (map (table_stmts (quiet shop) ?tm 1000) [''old_users'', ''orders''])"
    by blast
  have ev: "sum_list (map (\<lambda>s. length (source_rows (quiet shop) s)) [''old_users'', ''orders'']) = 3"
    "d_log (dst w0) = []"
    "concat (map (table_stmts (quiet shop) ?tm 1000) [''old_users'', ''orders''])
     = [Insert ''users_v2'' [''id'', ''email''] [''7'', ''ann@example.org''],
        Insert ''users_v2'' [''id'', ''email''] [''8'', ''bob@example.org''], Commit,
        Insert ''orders'' [''id''] [''9''], Commit]"
    by (simp_all add: source_rows_def table_stmts_def dest_name_def batches.simps sample_defs)
  from run ev have "fst ?run = Inr 3" and lg: "d_log (dst (snd ?run))
     = [Insert ''users_v2'' [''id'', ''email''] [''7'', ''ann@example.org''],
        Insert ''users_v2'' [''id'', ''email''] [''8'', ''bob@example.org''], Commit,
        Insert ''orders'' [''id''] [''9''], Commit]"
    by simp_all
  then have "?run = (Inr 3, snd ?run)" by (simp add: prod_eq_iff)
  with names lg show ?thesis by blast
qed










lemma outcomes_silent:
  "list_all silent evs \<Longrightarrow> outcomes cur (evs @ rest) = outcomes cur rest"
proof (induction evs arbitrary: cur)
  case Nil
  then show ?case by simp
next
  case (Cons ev evs)
  then show ?case by (cases ev; cases cur) simp_all
qed

lemma outcomes_completed:
  assumes "list_all silent evs"
  shows "outcomes cur (Migrating s t # evs @ Completed n # rest)
         = (s, Succeeded n) # outcomes None rest"
  using outcomes_silent [OF assms, of "Some s" "Completed n # rest"] by simp

lemma outcomes_failed:
  assumes "list_all silent evs"
  shows "outcomes cur (Migrating s t # evs @ Failed s x # rest)
         = (s, Failure x) # outcomes None rest"
  using outcomes_silent [OF assms, of "Some s" "Failed s x # rest"] by simp

lemma copy_tables_outcomes:
  "copy_tables e tm skip b plan tot0 w = (Inr n, w') \<Longrightarrow>
     \<exists>evs outs. out w' = out w @ evs
       \<and> (\<forall>rest. outcomes None (evs @ rest) = outs @ outcomes None rest)
       \<and> map fst outs = plan \<and> n = tot0 + sum_list (map rows_of outs)"
proof (induction plan arbitrary: tot0 w)
  case Nil
  then show ?case by simp
next
  case (Cons s rest)
  let ?t = "dest_name tm s"
  let ?chk = "if skip then table_exists e ?t (dst w) else Inr False"
  let ?G = "\<exists>evs outs. out w' = out w @ evs
       \<and> (\<forall>rest'. outcomes None (evs @ rest') = outs @ outcomes None rest')
       \<and> map fst outs = s # rest \<and> n = tot0 + sum_list (map rows_of outs)"
  show ?case
  proof (cases ?chk)
    case (Inl x)
    with Cons.prems copy_tables_raise [OF Inl, of b rest tot0] show ?thesis by simp
  next
    case (Inr ans)
    show ?thesis
    proof (cases ans)
      case True
      with Inr Cons.prems copy_tables_skip [of skip e tm s w b rest tot0]
      have "copy_tables e tm skip b rest tot0 (print (Skipping s) w) = (Inr n, w')" by simp
      from Cons.IH [OF this] obtain evs outs where
        o: "out w' = out w @ Skipping s # evs"
        and r: "\<forall>rest'. outcomes None (evs @ rest') = outs @ outcomes None rest'"
        and m: "map fst outs = rest" "n = tot0 + sum_list (map rows_of outs)"
        by auto
      show ?thesis
        by (rule exI [of _ "Skipping s # evs"], rule exI [of _ "(s, Skipped) # outs"])
          (use o r m in simp)
    next
      case False
      with Inr have chk: "?chk = Inr False" by simp
      obtain r1 w1 where mt: "migrate_table e s ?t b w = (r1, w1)"
        by (cases "migrate_table e s ?t b w")
      from migrate_table_frame(3) [OF mt] obtain sil where
        o1: "out w1 = out w @ Migrating s ?t # sil
              @ (case r1 of Inr n \<Rightarrow> [Completed n] | Inl x \<Rightarrow> [])"
        and sil: "list_all silent sil" by blast
      note eq = copy_tables_copy [OF chk mt, of rest tot0]
      show ?thesis
      proof (cases r1)
        case (Inr rows)
        with eq Cons.prems have "copy_tables e tm skip b rest (tot0 + rows) w1 = (Inr n, w')"
          by simp
        from Cons.IH [OF this] obtain evs outs where
          o: "out w' = out w1 @ evs"
          and r: "\<forall>rest'. outcomes None (evs @ rest') = outs @ outcomes None rest'"
          and m: "map fst outs = rest" "n = tot0 + rows + sum_list (map rows_of outs)"
          by auto
        show ?thesis
          by (rule exI [of _ "Migrating s ?t # sil @ Completed rows # evs"],
              rule exI [of _ "(s, Succeeded rows) # outs"])
            (use o o1 Inr r m outcomes_completed [OF sil] in simp)
      next
        case (Inl x)
        with eq Cons.prems have ex: "is_Exception x"
          by (cases "is_Exception x") simp_all
        with Inl eq Cons.prems
        have "copy_tables e tm skip b rest tot0 (print (Failed s x) w1) = (Inr n, w')" by simp
        from Cons.IH [OF this] obtain evs outs where
          o: "out w' = out w1 @ Failed s x # evs"
          and r: "\<forall>rest'. outcomes None (evs @ rest') = outs @ outcomes None rest'"
          and m: "map fst outs = rest" "n = tot0 + sum_list (map rows_of outs)"
          by auto
        show ?thesis
          by (rule exI [of _ "Migrating s ?t # sil @ Failed s x # evs"],
              rule exI [of _ "(s, Failure x) # outs"])
            (use o o1 Inl r m outcomes_failed [OF sil] in simp)
      qed
    qed
  qed
qed

lemma copy_tables_returns:
  assumes only: "\<forall>d c x. fault e d c = Some x \<longrightarrow> is_Exception x"
    and chk: "skip \<longrightarrow> (\<forall>d t. fault e d (CExists t) = None)"
  shows "\<exists>n w'. copy_tables e tm skip b plan tot0 w = (Inr n, w')"
proof (induction plan arbitrary: tot0 w)
  case Nil
  then show ?case by simp
next
  case (Cons s rest)
  let ?t = "dest_name tm s"
  let ?chk = "if skip then table_exists e ?t (dst w) else Inr False"
  have "\<exists>ans. ?chk = Inr ans"
    using chk by (cases skip) (auto simp: table_exists_def)
  then obtain ans where ans: "?chk = Inr ans" ..
  show ?case
  proof (cases ans)
    case True
    with ans copy_tables_skip [of skip e tm s w b rest tot0] Cons.IH show ?thesis by simp
  next
    case False
    with ans have c: "?chk = Inr False" by simp
    obtain r1 w1 where mt: "migrate_table e s ?t b w = (r1, w1)"
      by (cases "migrate_table e s ?t b w")
    note eq = copy_tables_copy [OF c mt, of rest tot0]
    show ?thesis
    proof (cases r1)
      case (Inr rows)
      with eq Cons.IH show ?thesis by simp
    next
      case (Inl x)
      with mt migrate_table_raises only have "is_Exception x" by fastforce
      with Inl eq Cons.IH show ?thesis by simp
    qed
  qed
qed

text \<open>
  C1, as amended. Let the environment raise nothing but \<^verbatim>\<open>Exception\<close>s (nobody interrupts)
  and let the existence checks answer. Then the loop over the plan returns normally,
  and what it printed gives every table of the plan exactly one outcome, in plan order.
  At a table that is not skipped, an exception of \<^verbatim>\<open>migrate_table\<close> is caught: the failure
  is printed for that table, the total is unchanged and the loop goes on with the rest.
\<close>

theorem copy_tables_isolation:
  assumes "\<forall>d c x. fault e d c = Some x \<longrightarrow> is_Exception x"
    and "skip \<longrightarrow> (\<forall>d t. fault e d (CExists t) = None)"
  shows "(\<exists>n w' evs. copy_tables e tm skip b plan tot0 w = (Inr n, w')
            \<and> out w' = out w @ evs \<and> map fst (outcomes None evs) = plan)
    \<and> (\<forall>s rest x w1.
          migrate_table e s (dest_name tm s) b w = (Inl x, w1)
          \<and> (skip \<longrightarrow> \<not> exists_query (d_tables (dst w)) (dest_name tm s))
          \<longrightarrow> copy_tables e tm skip b (s # rest) tot0 w
              = copy_tables e tm skip b rest tot0 (print (Failed s x) w1))"
proof -
  from copy_tables_returns [OF assms] obtain n w' where
    r: "copy_tables e tm skip b plan tot0 w = (Inr n, w')" by blast
  from copy_tables_outcomes [OF r] obtain evs outs where
    "out w' = out w @ evs" "outcomes None (evs @ []) = outs @ outcomes None []"
    "map fst outs = plan" by blast
  with r have 1: "\<exists>n w' evs. copy_tables e tm skip b plan tot0 w = (Inr n, w')
            \<and> out w' = out w @ evs \<and> map fst (outcomes None evs) = plan"
    by auto
  have 2: "\<forall>s rest x w1.
          migrate_table e s (dest_name tm s) b w = (Inl x, w1)
          \<and> (skip \<longrightarrow> \<not> exists_query (d_tables (dst w)) (dest_name tm s))
          \<longrightarrow> copy_tables e tm skip b (s # rest) tot0 w
              = copy_tables e tm skip b rest tot0 (print (Failed s x) w1)"
  proof (intro allI impI)
    fix s rest x w1
    assume a: "migrate_table e s (dest_name tm s) b w = (Inl x, w1)
          \<and> (skip \<longrightarrow> \<not> exists_query (d_tables (dst w)) (dest_name tm s))"
    with migrate_table_raises assms(1) have x: "is_Exception x" by fastforce
    have c: "(if skip then table_exists e (dest_name tm s) (dst w) else Inr False) = Inr False"
      using a assms(2) by (auto simp: table_exists_def)
    from copy_tables_copy [OF c, of b "Inl x" w1 rest tot0] a x
    show "copy_tables e tm skip b (s # rest) tot0 w
              = copy_tables e tm skip b rest tot0 (print (Failed s x) w1)" by simp
  qed
  from 1 2 show ?thesis by blast
qed

text \<open>
  The plan \<^verbatim>\<open>a\<close>, \<^verbatim>\<open>b\<close>, \<^verbatim>\<open>c\<close> where the destination rejects the row of \<^verbatim>\<open>b\<close>: \<^verbatim>\<open>a\<close> and \<^verbatim>\<open>c\<close> are
  copied and committed, \<^verbatim>\<open>b\<close> is reported as failed.
\<close>

theorem copy_tables_isolation_witness:
  "fst (copy_tables reject_b None False 1000 [''a'', ''b'', ''c''] 0 w0) = Inr 2
   \<and> outcomes None (out (snd (copy_tables reject_b None False 1000 [''a'', ''b'', ''c''] 0 w0)))
     = [(''a'', Succeeded 1), (''b'', Failure (Exception ''rejected'')), (''c'', Succeeded 1)]
   \<and> d_committed (dst (snd (copy_tables reject_b None False 1000 [''a'', ''b'', ''c''] 0 w0)))
     = [(''a'', [''id''], [''1'']), (''c'', [''id''], [''3''])]"
proof -
  have h1: "\<forall>d c x. fault reject_b d c = Some x \<longrightarrow> is_Exception x"
    by (simp add: reject_b_def)
  have h2: "False \<longrightarrow> (\<forall>d t. fault reject_b d (CExists t) = None)"
    by simp
  from copy_tables_isolation [OF h1 h2, of None 1000 "[''a'', ''b'', ''c'']" 0 w0]
  show ?thesis
    by (simp add: migrate_defs run_defs sample_defs reject_b_def)
qed

text \<open>
  C1, as stated, fails: an error of the describe step is not caught. The three tables
  \<^verbatim>\<open>a\<close>, \<^verbatim>\<open>b\<close>, \<^verbatim>\<open>c\<close> are requested and exist; the source refuses to count the rows of \<^verbatim>\<open>b\<close>.
  \<^verbatim>\<open>get_table_info\<close> raises at line 184, outside any handler: \<^verbatim>\<open>migrate\<close> ends with that
  exception after the information line of \<^verbatim>\<open>a\<close>, no failure is recorded for \<^verbatim>\<open>b\<close>, and no
  table is copied, \<^verbatim>\<open>c\<close> not even looked at.
\<close>

theorem describe_error_aborts_run:
  "fst (migrate deny_count_b (Some [''a'', ''b'', ''c'']) None False 1000 w_yes)
     = Inl (Exception ''permission denied'')
   \<and> out (snd (migrate deny_count_b (Some [''a'', ''b'', ''c'']) None False 1000 w_yes))
     = [TableInfo ''a'' 1 1]
   \<and> d_log (dst (snd (migrate deny_count_b (Some [''a'', ''b'', ''c'']) None False 1000 w_yes)))
     = []"
  by (simp add: migrate_defs run_defs sample_defs deny_count_b_def)

subsection \<open>The whole of \<^verbatim>\<open>migrate\<close>, and \<^verbatim>\<open>main\<close>\<close>










text \<open>
  C2, as amended. Let \<^verbatim>\<open>get_tables\<close> return \<open>all_tables\<close> and let a list \<open>sel\<close> be requested.
  If a requested name is not among them, \<^verbatim>\<open>migrate\<close> prints all the missing names, in
  the order requested, and exits with status 1; the world is otherwise unchanged, so no
  table was inspected or copied. If all are present and the list is not empty, the run
  goes on with exactly the requested list as plan. An empty list exits with status 1
  after the message that no table is selected.
\<close>

theorem plan_validation:
  assumes "get_tables e (dst w) = Inr all_tables"
  shows "(\<not> set sel \<subseteq> set all_tables \<longrightarrow>
            migrate e (Some sel) tm skip b w
            = (Inl (SystemExit 1),
               print (TablesNotFound (filter (\<lambda>t. t \<notin> set all_tables) sel)) w))
    \<and> (set sel \<subseteq> set all_tables \<and> sel \<noteq> [] \<longrightarrow>
            migrate e (Some sel) tm skip b w = run_plan e tm skip b sel w)
    \<and> (sel = [] \<longrightarrow>
            migrate e (Some sel) tm skip b w = (Inl (SystemExit 1), print NoTablesSelected w))"
proof -
  have f: "filter (\<lambda>t. t \<notin> set all_tables) sel = [] \<longleftrightarrow> set sel \<subseteq> set all_tables"
    by (auto simp: filter_empty_conv)
  show ?thesis
    using assms f
    by (auto simp: migrate_def select_tables_def require_selection_def Let_def)
qed

text \<open>
  Two of four requested names are missing, and both are printed; a list of two present
  names goes on to the plan.
\<close>

theorem plan_validation_witness:
  "get_tables (quiet shop) (dst w_yes)
     = Inr [''a'', ''b'', ''c'', ''items'', ''no_rows'', ''old_users'', ''orders'']
   \<and> migrate (quiet shop) (Some [''a'', ''ghost'', ''b'', ''phantom'']) None False 1000 w_yes
     = (Inl (SystemExit 1), print (TablesNotFound [''ghost'', ''phantom'']) w_yes)
   \<and> migrate (quiet shop) (Some [''a'', ''b'']) None False 1000 w_yes
     = run_plan (quiet shop) None False 1000 [''a'', ''b''] w_yes"
proof -
  have g: "get_tables (quiet shop) (dst w_yes)
     = Inr [''a'', ''b'', ''c'', ''items'', ''no_rows'', ''old_users'', ''orders'']"
    by (simp add: get_tables_def tables_query_def tables_where_def sample_defs)
  from plan_validation [OF g, of "[''a'', ''ghost'', ''b'', ''phantom'']" None False 1000]
    plan_validation [OF g, of "[''a'', ''b'']" None False 1000] g
  show ?thesis by simp
qed

text \<open>
  C2, as stated, fails for the empty list: every requested name is present, yet the run
  does not go on; line 175 ends it.
\<close>

theorem empty_selection_exits:
  "fst (migrate (quiet shop) (Some []) None False 1000 w_yes) = Inl (SystemExit 1)
   \<and> out (snd (migrate (quiet shop) (Some []) None False 1000 w_yes)) = [NoTablesSelected]"
  by (simp add: migrate_defs run_defs sample_defs)

text \<open>
  C10. \<^verbatim>\<open>close\<close> leaves a connection field that is \<^verbatim>\<open>None\<close> as it is and closes the other;
  it has no failing case. \<^verbatim>\<open>main\<close>, whatever the \<^verbatim>\<open>try\<close> block did (connect failure,
  validation failure, interrupt, an unhandled error, or a normal return), ends with
  \<^verbatim>\<open>close\<close> applied to the migrator the block left: no connection is open at exit, and
  the program exits normally or with \<^verbatim>\<open>SystemExit\<close>.
\<close>

theorem close_on_every_exit:
  "source_conn (close m) = (if source_conn m = Unset then Unset else Closed)
   \<and> dest_conn (close m) = (if dest_conn m = Unset then Unset else Closed)
   \<and> source_conn_string (close m) = source_conn_string m
   \<and> dest_conn_string (close m) = dest_conn_string m
   \<and> fst (snd (main e source dest sel tm skip b w))
       = close (fst (snd (main_try e (init source dest) sel tm skip b w)))
   \<and> source_conn (fst (snd (main e source dest sel tm skip b w))) \<noteq> Open
   \<and> dest_conn (fst (snd (main e source dest sel tm skip b w))) \<noteq> Open
   \<and> (fst (main e source dest sel tm skip b w) = Inr ()
      \<or> (\<exists>n. fst (main e source dest sel tm skip b w) = Inl (SystemExit n)))"
proof -
  have c: "\<And>m. source_conn (close m) = (if source_conn m = Unset then Unset else Closed)
   \<and> dest_conn (close m) = (if dest_conn m = Unset then Unset else Closed)
   \<and> source_conn_string (close m) = source_conn_string m
   \<and> dest_conn_string (close m) = dest_conn_string m"
    by (simp add: close_def Let_def)
  obtain r0 m0 w0 where t: "main_try e (init source dest) sel tm skip b w = (r0, m0, w0)"
    by (cases "main_try e (init source dest) sel tm skip b w")
  have m: "fst (snd (main e source dest sel tm skip b w)) = close m0"
    using t by (simp add: main_def split: sum.splits exn.splits)
  have r: "fst (main e source dest sel tm skip b w) = Inr ()
      \<or> (\<exists>n. fst (main e source dest sel tm skip b w) = Inl (SystemExit n))"
    using t by (simp add: main_def split: sum.splits exn.splits)
  from c [of m0] have "source_conn (close m0) \<noteq> Open" "dest_conn (close m0) \<noteq> Open"
    by (simp_all split: if_splits)
  with c [of m] m r t show ?thesis by simp
qed

text \<open>
  The destination cannot be reached: \<^verbatim>\<open>connect\<close> exits, the source connection is closed
  and the destination field stays \<^verbatim>\<open>None\<close>.
\<close>

theorem close_on_every_exit_witness:
  "fst (main no_dest ''postgresql://source'' ''postgresql://dest'' None [] False 1000 w_yes)
     = Inl (SystemExit 1)
   \<and> source_conn (fst (snd (main no_dest ''postgresql://source'' ''postgresql://dest''
                               None [] False 1000 w_yes))) = Closed
   \<and> dest_conn (fst (snd (main no_dest ''postgresql://source'' ''postgresql://dest''
                             None [] False 1000 w_yes))) = Unset
   \<and> close (init ''postgresql://source'' ''postgresql://dest'')
     = init ''postgresql://source'' ''postgresql://dest''"
  using close_on_every_exit [of "init ''postgresql://source'' ''postgresql://dest''"
      no_dest "''postgresql://source''" "''postgresql://dest''" None "[]" False 1000 w_yes]
  by (simp add: main_def main_try_def connect_def init_def close_def no_dest_def
      print_def Let_def sample_defs)

end
